theory Spec2Isabelle
  imports Complex_Main "HOL-Library.Word" "HOL-Library.Code_Target_Numeral"
begin

section \<open>Errors and partial operations\<close>

text \<open>
  The gadget code has no recoverable errors.  What can go wrong is a failed
  \<^verbatim>\<open>assert\<close>, an access outside a \<^verbatim>\<open>std::vector\<close> (undefined behaviour in
  C++, \<^verbatim>\<open>back()\<close> of an empty vector included) and an allocation whose size has
  wrapped around.  Each of them is a value of \<open>error\<close>, and every function that
  can reach one returns \<open>error + 'a\<close>.  Assertions are modelled as enabled.
  The one access outside a vector that is not an error of the model is a read
  of the matrix by \<^verbatim>\<open>make_outputs\<close>, see there.
\<close>

datatype error =
    OutOfRange
  | AssertFailed string
  | BadAlloc

definition ebind :: "error + 'a \<Rightarrow> ('a \<Rightarrow> error + 'b) \<Rightarrow> error + 'b" where
  "ebind m f = (case m of Inl e \<Rightarrow> Inl e | Inr x \<Rightarrow> f x)"

definition nth_err :: "'a list \<Rightarrow> nat \<Rightarrow> error + 'a" where
  "nth_err xs i = (if i < length xs then Inr (xs ! i) else Inl OutOfRange)"

definition vec_back :: "'a list \<Rightarrow> error + 'a" where
  "vec_back xs = (if xs = [] then Inl OutOfRange else Inr (last xs))"

text \<open>A \<^verbatim>\<open>for\<close> loop over the indices \<open>is\<close> whose body may fail.\<close>

fun foldM :: "('a \<Rightarrow> 's \<Rightarrow> error + 's) \<Rightarrow> 'a list \<Rightarrow> 's \<Rightarrow> error + 's" where
  "foldM f [] s = Inr s"
| "foldM f (i # is) s = (case f i s of Inl e \<Rightarrow> Inl e | Inr s' \<Rightarrow> foldM f is s')"

section \<open>The host constraint system\<close>

text \<open>
  Modelled from the spec: the protoboard, its variables and linear combinations
  belong to the constraint-system library, which is not part of the sources.  The
  spec (sections 3 and 6) gives the interface: a variable is a dense index,
  variable \<open>0\<close> is the constant one, a linear combination is an ordered list of
  terms and means their sum, a constraint is a triple \<open>(A, B, C)\<close> meaning
  \<open>A * B = C\<close>, and the board allocates variables, appends constraints and
  reads and writes the witness table.  The field \<open>'f\<close> is any field.
\<close>

type_synonym var_index = nat

type_synonym 'f linear_combination = "(var_index \<times> 'f) list"

definition ONE :: var_index where
  "ONE = 0"

definition lc_of_var :: "var_index \<Rightarrow> 'f::field linear_combination" where
  "lc_of_var v = [(v, 1)]"

definition lc_of_field :: "'f \<Rightarrow> 'f::field linear_combination" where
  "lc_of_field c = [(ONE, c)]"

definition add_term :: "'f linear_combination \<Rightarrow> var_index \<Rightarrow> 'f \<Rightarrow> 'f::field linear_combination" where
  "add_term lc v c = lc @ [(v, c)]"

text \<open>The sum of two combinations merges the two term lists by index.\<close>

fun lc_plus :: "'f::field linear_combination \<Rightarrow> 'f linear_combination \<Rightarrow> 'f linear_combination" where
  "lc_plus [] ys = ys"
| "lc_plus xs [] = xs"
| "lc_plus ((i, a) # xs) ((j, b) # ys) =
     (if i < j then (i, a) # lc_plus xs ((j, b) # ys)
      else if j < i then (j, b) # lc_plus ((i, a) # xs) ys
      else (i, a + b) # lc_plus xs ys)"

definition lc_times :: "'f::field linear_combination \<Rightarrow> 'f \<Rightarrow> 'f linear_combination" where
  "lc_times lc c = map (\<lambda>(i, a). (i, a * c)) lc"

definition VariableArrayT_to_lc :: "var_index list \<Rightarrow> 'f::field linear_combination list" where
  "VariableArrayT_to_lc vs = map lc_of_var vs"

datatype 'f constraint =
    ConstraintT "'f linear_combination" "'f linear_combination" "'f linear_combination"
  | Light_Instance nat "var_index list" "32 word"

text \<open>
  \<open>ConstraintT A B C\<close> is a constraint of its own.  \<open>Light_Instance i ins off\<close> is
  a stamped copy: a pointer to constraint \<open>i\<close> of the master board together with
  the translator (the instance's input variables and its offset).
\<close>

record 'f protoboard =
  pb_values :: "'f list"
  pb_constraints :: "'f constraint list"

definition protoboard_new :: "'f protoboard" where
  "protoboard_new = \<lparr>pb_values = [], pb_constraints = []\<rparr>"

definition num_variables :: "'f protoboard \<Rightarrow> nat" where
  "num_variables pb = length (pb_values pb)"

definition make_variable :: "'f::field protoboard \<Rightarrow> var_index \<times> 'f protoboard" where
  "make_variable pb = (num_variables pb + 1, pb\<lparr>pb_values := pb_values pb @ [0]\<rparr>)"

definition make_var_array :: "'f::field protoboard \<Rightarrow> nat \<Rightarrow> var_index list \<times> 'f protoboard" where
  "make_var_array pb n =
     ([num_variables pb + 1 ..< num_variables pb + 1 + n],
      pb\<lparr>pb_values := pb_values pb @ replicate n 0\<rparr>)"

definition add_r1cs_constraint :: "'f constraint \<Rightarrow> 'f protoboard \<Rightarrow> 'f protoboard" where
  "add_r1cs_constraint c pb = pb\<lparr>pb_constraints := pb_constraints pb @ [c]\<rparr>"

definition pb_val :: "'f::field protoboard \<Rightarrow> var_index \<Rightarrow> error + 'f" where
  "pb_val pb v =
     (if v = 0 then Inr 1
      else if v \<le> length (pb_values pb) then Inr (pb_values pb ! (v - 1))
      else Inl OutOfRange)"

definition pb_set_val :: "var_index \<Rightarrow> 'f \<Rightarrow> 'f protoboard \<Rightarrow> error + 'f protoboard" where
  "pb_set_val v x pb =
     (if 1 \<le> v \<and> v \<le> length (pb_values pb)
      then Inr (pb\<lparr>pb_values := (pb_values pb)[v - 1 := x]\<rparr>)
      else Inl OutOfRange)"

text \<open>\<^verbatim>\<open>lc_val\<close>: the value of a combination under the board's witness table.\<close>

definition lc_val :: "'f::field protoboard \<Rightarrow> 'f linear_combination \<Rightarrow> error + 'f" where
  "lc_val pb lc =
     foldM (\<lambda>(i, a) acc. ebind (pb_val pb i) (\<lambda>x. Inr (acc + a * x))) lc 0"

text \<open>
  A constraint \<open>(A, B, C)\<close> holds under the board's witness when all three
  combinations can be evaluated and \<open>eval A * eval B = eval C\<close>.
\<close>

definition r1cs_satisfied :: "'f::field protoboard \<Rightarrow> 'f constraint \<Rightarrow> bool" where
  "r1cs_satisfied pb c =
     (case c of
        ConstraintT a b c' \<Rightarrow>
          (case (lc_val pb a, lc_val pb b, lc_val pb c') of
             (Inr x, Inr y, Inr z) \<Rightarrow> x * y = z
           | _ \<Rightarrow> False)
      | Light_Instance i ins off \<Rightarrow> False)"

section \<open>Constants\<close>

record 'f PoseidonConstants =
  C :: "'f list"
  M :: "'f list"

type_synonym byte = "8 word"

text \<open>
  What the constant generator consumes from outside: BLAKE2b with an empty key
  (output length, data), the bit size of the field and, for the decoding of
  bytes, the order of the field.
\<close>

record backend =
  blake2b :: "nat \<Rightarrow> byte list \<Rightarrow> byte list"
  size_in_bits :: nat
  modulus :: nat

definition bytes_of_string :: "string \<Rightarrow> byte list" where
  "bytes_of_string s = map of_char s"

fun le_nat :: "byte list \<Rightarrow> nat" where
  "le_nat [] = 0"
| "le_nat (b # bs) = unat b + 256 * le_nat bs"

text \<open>
  Modelled from the spec: \<^verbatim>\<open>bytes_to_FieldT_littleendian\<close> is declared in a file
  that is not part of the sources.  The spec: the bytes are read as a
  little-endian number, reduced modulo the order of the field.
\<close>

definition bytes_to_FieldT_littleendian :: "backend \<Rightarrow> byte list \<Rightarrow> 'f::field" where
  "bytes_to_FieldT_littleendian be bs = of_nat (le_nat bs mod modulus be)"

definition output_size :: "backend \<Rightarrow> nat" where
  "output_size be = (size_in_bits be + (8 - size_in_bits be mod 8)) div 8"

text \<open>
  The loop of \<^verbatim>\<open>poseidon_constants_fill\<close>: \<open>k\<close> more rounds, each hashing the
  output buffer into itself and appending the decoded element.
\<close>

fun constants_loop :: "nat \<Rightarrow> backend \<Rightarrow> byte list \<Rightarrow> 'f::field list \<Rightarrow> byte list \<times> 'f list" where
  "constants_loop 0 be output result = (output, result)"
| "constants_loop (Suc k) be output result =
     (let output' = blake2b be (output_size be) output
      in constants_loop k be output' (result @ [bytes_to_FieldT_littleendian be output']))"

text \<open>
  The count is an \<^verbatim>\<open>unsigned\<close>: the loop bound \<^verbatim>\<open>n_constants - 1\<close> is computed
  in 32 bits and wraps around at \<open>0\<close>.
\<close>

definition poseidon_constants_fill :: "backend \<Rightarrow> string \<Rightarrow> 32 word \<Rightarrow> 'f::field list \<Rightarrow> 'f list" where
  "poseidon_constants_fill be seed n_constants result =
     (let output = blake2b be (output_size be) (bytes_of_string seed);
          result1 = result @ [bytes_to_FieldT_littleendian be output]
      in snd (constants_loop (unat (n_constants - 1)) be output result1))"

definition poseidon_constants :: "backend \<Rightarrow> string \<Rightarrow> 32 word \<Rightarrow> 'f::field list" where
  "poseidon_constants be seed n_constants = poseidon_constants_fill be seed n_constants []"

text \<open>
  \<^verbatim>\<open>inverse()\<close> of the host field is meant for elements other than \<open>0\<close>; the
  \<open>inverse\<close> of the model is the one of HOL, with \<open>inverse 0 = 0\<close>.  The two can
  differ only for a hash under which \<open>c[i] = c[t + j]\<close> for some \<open>i, j < t\<close>.
\<close>

definition poseidon_matrix_fill :: "backend \<Rightarrow> string \<Rightarrow> 32 word \<Rightarrow> 'f::field list \<Rightarrow> error + 'f list" where
  "poseidon_matrix_fill be seed t result =
     (let c = poseidon_constants be seed (t * 2)
      in foldM (\<lambda>i. foldM (\<lambda>j res.
                  ebind (nth_err c i) (\<lambda>ci.
                  ebind (nth_err c (unat (t + of_nat j))) (\<lambda>cj.
                  Inr (res @ [inverse (ci - cj)]))))
                [0 ..< unat t])
          [0 ..< unat t] result)"

definition poseidon_matrix :: "backend \<Rightarrow> string \<Rightarrow> 32 word \<Rightarrow> error + 'f::field list" where
  "poseidon_matrix be seed t = poseidon_matrix_fill be seed t []"

definition poseidon_params :: "backend \<Rightarrow> 32 word \<Rightarrow> 32 word \<Rightarrow> 32 word \<Rightarrow> error + 'f::field PoseidonConstants" where
  "poseidon_params be pt pF pP =
     (let cs = poseidon_constants_fill be ''poseidon_constants'' (pF + pP) []
      in ebind (poseidon_matrix_fill be ''poseidon_matrix_0000'' pt [])
           (\<lambda>ms. Inr \<lparr>C = cs, M = ms\<rparr>))"

section \<open>The S-box gadget\<close>

record FifthPower_gadget =
  x2 :: var_index
  x4 :: var_index
  x5 :: var_index

definition FifthPower_gadget_new :: "'f::field protoboard \<Rightarrow> FifthPower_gadget \<times> 'f protoboard" where
  "FifthPower_gadget_new pb =
     (let (a, pb1) = make_variable pb;
          (b, pb2) = make_variable pb1;
          (c, pb3) = make_variable pb2
      in (\<lparr>x2 = a, x4 = b, x5 = c\<rparr>, pb3))"

definition fp_generate_r1cs_constraints ::
  "FifthPower_gadget \<Rightarrow> 'f::field linear_combination \<Rightarrow> 'f protoboard \<Rightarrow> 'f protoboard" where
  "fp_generate_r1cs_constraints g x pb =
     add_r1cs_constraint (ConstraintT x (lc_of_var (x4 g)) (lc_of_var (x5 g)))
       (add_r1cs_constraint (ConstraintT (lc_of_var (x2 g)) (lc_of_var (x2 g)) (lc_of_var (x4 g)))
         (add_r1cs_constraint (ConstraintT x x (lc_of_var (x2 g))) pb))"

definition fp_generate_r1cs_witness ::
  "FifthPower_gadget \<Rightarrow> 'f::field \<Rightarrow> 'f protoboard \<Rightarrow> error + 'f protoboard" where
  "fp_generate_r1cs_witness g val_x pb =
     (let val_x2 = val_x * val_x;
          val_x4 = val_x2 * val_x2;
          val_x5 = val_x4 * val_x
      in ebind (pb_set_val (x2 g) val_x2 pb) (\<lambda>pb1.
         ebind (pb_set_val (x4 g) val_x4 pb1) (\<lambda>pb2.
         pb_set_val (x5 g) val_x5 pb2)))"

definition fp_result :: "FifthPower_gadget \<Rightarrow> var_index" where
  "fp_result g = x5 g"

section \<open>The round gadget\<close>

text \<open>
  The template parameters \<open>param_t\<close>, \<open>nSBox\<close>, \<open>nInputs\<close>, \<open>nOutputs\<close> of
  \<^verbatim>\<open>Poseidon_Round\<close> are the first arguments \<open>t nS nI nO\<close> of its functions.  They
  are compile-time constants of a gadget that is really built, so products
  and sums of them are taken in \<open>nat\<close>.
\<close>

record 'f Poseidon_Round =
  C_i :: 'f
  M_ref :: "'f list"
  state :: "'f linear_combination list"
  sboxes :: "FifthPower_gadget list"
  outputs :: "'f linear_combination list"

fun make_sboxes :: "nat \<Rightarrow> 'f::field protoboard \<Rightarrow> FifthPower_gadget list \<times> 'f protoboard" where
  "make_sboxes 0 pb = ([], pb)"
| "make_sboxes (Suc h) pb =
     (let (ret, pb1) = make_sboxes h pb;
          (g, pb2) = FifthPower_gadget_new pb1
      in (ret @ [g], pb2))"

text \<open>
  \<^verbatim>\<open>make_outputs\<close> reads the matrix with \<^verbatim>\<open>in_M[M_offset + j]\<close>, which does not check
  the index.  A read past the end of the matrix is undefined behaviour; the
  compiled code does not stop there, it takes the field element that lies
  behind the vector and goes on to the assertions of the constructor.  So the
  model reads \<open>in_M ! k\<close> and goes on, too: for an index past the end this is
  some field element about which nothing is known, and what is proved below
  about a master with \<open>nInputs > t\<close>, \<open>nOutputs > t\<close> or \<open>c > t\<close> holds whichever
  element it is (generated code stops at such a read, normalisation carries
  it along as it stands).  The other vectors are
  read inside their bounds by every master that is built on \<open>nInputs\<close> inputs
  with \<open>t < 2 ^ 31\<close> and \<open>F + P < 2 ^ 32\<close>; a read of them past the end remains an
  error of the model.
\<close>

definition constant_term_loop :: "nat \<Rightarrow> nat \<Rightarrow> 'f::field \<Rightarrow> 'f list \<Rightarrow> nat \<Rightarrow> 'f" where
  "constant_term_loop t nS in_C_i in_M M_offset =
     fold (\<lambda>j constant_term. constant_term + in_C_i * in_M ! (M_offset + j)) [nS ..< t] 0"

definition sbox_terms_loop ::
  "nat \<Rightarrow> 'f::field list \<Rightarrow> FifthPower_gadget list \<Rightarrow> nat \<Rightarrow> 'f linear_combination
     \<Rightarrow> error + 'f linear_combination" where
  "sbox_terms_loop nS in_M in_sboxes M_offset lc0 =
     foldM (\<lambda>s lc.
              ebind (nth_err in_sboxes s) (\<lambda>g.
              Inr (add_term lc (fp_result g) (in_M ! (M_offset + s)))))
       [0 ..< nS] lc0"

definition state_terms_loop ::
  "nat \<Rightarrow> nat \<Rightarrow> 'f::field list \<Rightarrow> 'f linear_combination list \<Rightarrow> nat \<Rightarrow> 'f linear_combination
     \<Rightarrow> error + 'f linear_combination" where
  "state_terms_loop nS nI in_M in_state M_offset lc0 =
     foldM (\<lambda>k lc.
              ebind (nth_err in_state k) (\<lambda>st.
              Inr (lc_plus lc (lc_times st (in_M ! (M_offset + k))))))
       [nS ..< nI] lc0"

definition output_row ::
  "nat \<Rightarrow> nat \<Rightarrow> nat \<Rightarrow> 'f::field \<Rightarrow> 'f list \<Rightarrow> 'f linear_combination list
     \<Rightarrow> FifthPower_gadget list \<Rightarrow> nat \<Rightarrow> error + 'f linear_combination" where
  "output_row t nS nI in_C_i in_M in_state in_sboxes i =
     (let M_offset = i * t;
          constant_term = constant_term_loop t nS in_C_i in_M M_offset
      in ebind (sbox_terms_loop nS in_M in_sboxes M_offset
                  (if nS < t then add_term [] ONE constant_term else [])) (\<lambda>lc.
         state_terms_loop nS nI in_M in_state M_offset lc))"

definition make_outputs ::
  "nat \<Rightarrow> nat \<Rightarrow> nat \<Rightarrow> nat \<Rightarrow> 'f::field \<Rightarrow> 'f list \<Rightarrow> 'f linear_combination list
     \<Rightarrow> FifthPower_gadget list \<Rightarrow> error + 'f linear_combination list" where
  "make_outputs t nS nI nO in_C_i in_M in_state in_sboxes =
     foldM (\<lambda>i ret.
              ebind (output_row t nS nI in_C_i in_M in_state in_sboxes i) (\<lambda>lc.
              Inr (ret[i := lc])))
       [0 ..< nO] (replicate nO [])"

text \<open>
  The constructor: the members are initialised in the order of their
  declaration, then the body checks the two assertions.
\<close>

definition Poseidon_Round_new ::
  "nat \<Rightarrow> nat \<Rightarrow> nat \<Rightarrow> nat \<Rightarrow> 'f::field protoboard \<Rightarrow> 'f \<Rightarrow> 'f list \<Rightarrow> 'f linear_combination list
     \<Rightarrow> error + ('f Poseidon_Round \<times> 'f protoboard)" where
  "Poseidon_Round_new t nS nI nO in_pb in_C_i in_M in_state =
     (let (sbs, pb1) = make_sboxes nS in_pb
      in ebind (make_outputs t nS nI nO in_C_i in_M in_state sbs) (\<lambda>outs.
         if \<not> nI \<le> t then Inl (AssertFailed ''nInputs <= param_t'')
         else if \<not> nO \<le> t then Inl (AssertFailed ''nOutputs <= param_t'')
         else Inr (\<lparr>C_i = in_C_i, M_ref = in_M, state = in_state, sboxes = sbs, outputs = outs\<rparr>,
                   pb1)))"

definition round_generate_r1cs_witness ::
  "nat \<Rightarrow> nat \<Rightarrow> 'f::field Poseidon_Round \<Rightarrow> 'f protoboard \<Rightarrow> error + 'f protoboard" where
  "round_generate_r1cs_witness nS nI r =
     foldM (\<lambda>h pb.
              ebind (if h < nI
                     then ebind (nth_err (state r) h) (\<lambda>st.
                          ebind (lc_val pb st) (\<lambda>v. Inr (C_i r + v)))
                     else Inr (C_i r)) (\<lambda>val.
              ebind (nth_err (sboxes r) h) (\<lambda>g.
              fp_generate_r1cs_witness g val pb)))
       [0 ..< nS]"

definition round_generate_r1cs_constraints ::
  "nat \<Rightarrow> nat \<Rightarrow> 'f::field Poseidon_Round \<Rightarrow> 'f protoboard \<Rightarrow> error + 'f protoboard" where
  "round_generate_r1cs_constraints nS nI r =
     foldM (\<lambda>h pb.
              ebind (nth_err (sboxes r) h) (\<lambda>g.
              if h < nI
              then ebind (nth_err (state r) h) (\<lambda>st.
                   Inr (fp_generate_r1cs_constraints g (lc_plus st (lc_of_field (C_i r))) pb))
              else Inr (fp_generate_r1cs_constraints g (lc_of_field (C_i r)) pb)))
       [0 ..< nS]"

section \<open>The master permutation gadget\<close>

record params =
  param_t :: nat
  param_c :: nat
  param_F :: nat
  param_P :: nat
  nInputs :: nat
  nOutputs :: nat
  constrainOutputs :: bool

definition partial_begin :: "params \<Rightarrow> nat" where
  "partial_begin prm = param_F prm div 2"

definition partial_end :: "params \<Rightarrow> nat" where
  "partial_end prm = partial_begin prm + param_P prm"

definition total_rounds :: "params \<Rightarrow> nat" where
  "total_rounds prm = param_F prm + param_P prm"

text \<open>\<^verbatim>\<open>n - 1\<close> on an \<^verbatim>\<open>unsigned\<close>: it wraps around at \<open>0\<close>.\<close>

definition u32_pred :: "nat \<Rightarrow> nat" where
  "u32_pred n = (if n = 0 then 2 ^ 32 - 1 else n - 1)"

record 'f Master_Poseidon_gadget =
  constants :: "'f PoseidonConstants"
  first_round :: "'f Poseidon_Round"
  prefix_full_rounds :: "'f Poseidon_Round list"
  partial_rounds :: "'f Poseidon_Round list"
  suffix_full_rounds :: "'f Poseidon_Round list"
  last_round :: "'f Poseidon_Round"
  output_vars :: "var_index list"

text \<open>
  \<^verbatim>\<open>make_rounds<T>\<close>, where \<open>t nS nI nO\<close> are the template parameters of the
  round type \<open>T\<close>.  It starts with \<^verbatim>\<open>result.reserve(n_end - n_begin)\<close>: the
  difference is unsigned, for \<open>n_end < n_begin\<close> it wraps around to a size for
  which \<^verbatim>\<open>reserve\<close> throws.  The state of round \<open>n_begin\<close> is \<open>inputs\<close>, the state
  of a later round is the output of the round before it.
\<close>

definition make_rounds ::
  "nat \<Rightarrow> nat \<Rightarrow> nat \<Rightarrow> nat \<Rightarrow> nat \<Rightarrow> nat \<Rightarrow> 'f::field protoboard \<Rightarrow> 'f linear_combination list
     \<Rightarrow> 'f PoseidonConstants \<Rightarrow> error + ('f Poseidon_Round list \<times> 'f protoboard)" where
  "make_rounds t nS nI nO n_begin n_end pb inputs consts =
     (if n_end < n_begin then Inl BadAlloc
      else foldM (\<lambda>i (result, pb').
              ebind (if i = n_begin then Inr inputs
                     else ebind (vec_back result) (\<lambda>r. Inr (outputs r))) (\<lambda>st.
              ebind (nth_err (C consts) i) (\<lambda>ci.
              ebind (Poseidon_Round_new t nS nI nO pb' ci (M consts) st) (\<lambda>(r, pb'').
              Inr (result @ [r], pb'')))))
       [n_begin ..< n_end] ([], pb))"

text \<open>
  The member initialisers of the master, given the constants that
  \<^verbatim>\<open>poseidon_params\<close> returned.
\<close>

definition Master_init ::
  "params \<Rightarrow> 'f::field PoseidonConstants \<Rightarrow> 'f protoboard \<Rightarrow> var_index list
     \<Rightarrow> error + ('f Master_Poseidon_gadget \<times> 'f protoboard)" where
  "Master_init prm consts pb in_inputs =
     (let t = param_t prm
      in ebind (nth_err (C consts) 0) (\<lambda>c0.
         ebind (Poseidon_Round_new t t (nInputs prm) t pb c0 (M consts)
                  (VariableArrayT_to_lc in_inputs)) (\<lambda>(fr, pb1).
         ebind (make_rounds t t t t 1 (partial_begin prm) pb1 (outputs fr) consts) (\<lambda>(pre, pb2).
         ebind (vec_back pre) (\<lambda>pre_last.
         ebind (make_rounds t (param_c prm) t t (partial_begin prm) (partial_end prm) pb2
                  (outputs pre_last) consts) (\<lambda>(par, pb3).
         ebind (vec_back par) (\<lambda>par_last.
         ebind (make_rounds t t t t (partial_end prm) (u32_pred (total_rounds prm)) pb3
                  (outputs par_last) consts) (\<lambda>(suf, pb4).
         ebind (vec_back (C consts)) (\<lambda>c_last.
         ebind (vec_back suf) (\<lambda>suf_last.
         ebind (Poseidon_Round_new t t t (nOutputs prm) pb4 c_last (M consts)
                  (outputs suf_last)) (\<lambda>(lr, pb5).
         let (ovs, pb6) = (if constrainOutputs prm then make_var_array pb5 (nOutputs prm)
                           else ([], pb5))
         in Inr (\<lparr>constants = consts, first_round = fr, prefix_full_rounds = pre,
                   partial_rounds = par, suffix_full_rounds = suf, last_round = lr,
                   output_vars = ovs\<rparr>, pb6))))))))))))"

definition Master_Poseidon_gadget_T ::
  "backend \<Rightarrow> params \<Rightarrow> 'f::field protoboard \<Rightarrow> var_index list
     \<Rightarrow> error + ('f Master_Poseidon_gadget \<times> 'f protoboard)" where
  "Master_Poseidon_gadget_T be prm pb in_inputs =
     ebind (poseidon_params be (of_nat (param_t prm)) (of_nat (param_F prm)) (of_nat (param_P prm)))
       (\<lambda>consts. Master_init prm consts pb in_inputs)"

definition output_constraints_loop ::
  "'f::field Master_Poseidon_gadget \<Rightarrow> 'f protoboard \<Rightarrow> error + 'f protoboard" where
  "output_constraints_loop m =
     foldM (\<lambda>i pb.
              ebind (nth_err (output_vars m) i) (\<lambda>v.
              Inr (add_r1cs_constraint
                     (ConstraintT (outputs (last_round m) ! i) (lc_of_var ONE) (lc_of_var v)) pb)))
       [0 ..< length (outputs (last_round m))]"

definition master_generate_r1cs_constraints ::
  "params \<Rightarrow> 'f::field Master_Poseidon_gadget \<Rightarrow> 'f protoboard \<Rightarrow> error + 'f protoboard" where
  "master_generate_r1cs_constraints prm m pb =
     (let t = param_t prm
      in ebind (round_generate_r1cs_constraints t (nInputs prm) (first_round m) pb) (\<lambda>pb1.
         ebind (foldM (round_generate_r1cs_constraints t t) (prefix_full_rounds m) pb1) (\<lambda>pb2.
         ebind (foldM (round_generate_r1cs_constraints (param_c prm) t) (partial_rounds m) pb2) (\<lambda>pb3.
         ebind (foldM (round_generate_r1cs_constraints t t) (suffix_full_rounds m) pb3) (\<lambda>pb4.
         ebind (round_generate_r1cs_constraints t t (last_round m) pb4) (\<lambda>pb5.
         if constrainOutputs prm then output_constraints_loop m pb5 else Inr pb5))))))"

definition output_witness_loop ::
  "'f::field Master_Poseidon_gadget \<Rightarrow> 'f protoboard \<Rightarrow> error + 'f protoboard" where
  "output_witness_loop m =
     foldM (\<lambda>n pb.
              ebind (lc_val pb (outputs (last_round m) ! n)) (\<lambda>x.
              ebind (nth_err (output_vars m) n) (\<lambda>v.
              pb_set_val v x pb)))
       [0 ..< length (outputs (last_round m))]"

definition master_generate_r1cs_witness ::
  "params \<Rightarrow> 'f::field Master_Poseidon_gadget \<Rightarrow> 'f protoboard \<Rightarrow> error + 'f protoboard" where
  "master_generate_r1cs_witness prm m pb =
     (let t = param_t prm
      in ebind (round_generate_r1cs_witness t (nInputs prm) (first_round m) pb) (\<lambda>pb1.
         ebind (foldM (round_generate_r1cs_witness t t) (prefix_full_rounds m) pb1) (\<lambda>pb2.
         ebind (foldM (round_generate_r1cs_witness (param_c prm) t) (partial_rounds m) pb2) (\<lambda>pb3.
         ebind (foldM (round_generate_r1cs_witness t t) (suffix_full_rounds m) pb3) (\<lambda>pb4.
         ebind (round_generate_r1cs_witness t t (last_round m) pb4) (\<lambda>pb5.
         if constrainOutputs prm then output_witness_loop m pb5 else Inr pb5))))))"

definition Poseidon128 :: "nat \<Rightarrow> nat \<Rightarrow> bool \<Rightarrow> params" where
  "Poseidon128 nI nO co =
     \<lparr>param_t = 6, param_c = 1, param_F = 8, param_P = 57,
      nInputs = nI, nOutputs = nO, constrainOutputs = co\<rparr>"

section \<open>The instance stamper\<close>

text \<open>
  The function-local statics of one instantiation of \<^verbatim>\<open>Poseidon_gadget_T\<close>: the
  master board, the pointer to the master (\<open>None\<close> until \<^verbatim>\<open>get_master\<close> has run
  its once-only body) and the once-only flag of \<^verbatim>\<open>swapAB\<close>.
\<close>

record 'f world =
  master_pb :: "'f protoboard"
  master_ptr :: "'f Master_Poseidon_gadget option"
  swapAB_flag :: bool

definition world_new :: "'f world" where
  "world_new = \<lparr>master_pb = protoboard_new, master_ptr = None, swapAB_flag = False\<rparr>"

record 'f Poseidon_gadget =
  master :: "'f Master_Poseidon_gadget"
  instance_inputs :: "var_index list"
  instance_variables_offset :: "32 word"
  res :: var_index

text \<open>
  \<^verbatim>\<open>get_master\<close>.  The last statement of its once-only body,
  \<^verbatim>\<open>master_pb.set_use_thread_values(true)\<close>, is a call into the host board whose
  code is not part of the sources; it is not modelled.  The model has one
  thread, for which \<^verbatim>\<open>val\<close> reads what \<^verbatim>\<open>val\<close> wrote, wherever the host keeps the
  values.
\<close>

definition get_master ::
  "backend \<Rightarrow> params \<Rightarrow> 'f::field world \<Rightarrow> error + ('f Master_Poseidon_gadget \<times> 'f world)" where
  "get_master be prm w =
     (case master_ptr w of
        Some m \<Rightarrow> Inr (m, w)
      | None \<Rightarrow>
          (let (dummy_inputs, pb1) = make_var_array (master_pb w) (nInputs prm)
           in ebind (Master_Poseidon_gadget_T be prm pb1 dummy_inputs) (\<lambda>(m, pb2).
              ebind (master_generate_r1cs_constraints prm m pb2) (\<lambda>pb3.
              Inr (m, w\<lparr>master_pb := pb3, master_ptr := Some m\<rparr>)))))"

text \<open>
  \<^verbatim>\<open>translate\<close> takes and returns an \<^verbatim>\<open>unsigned int\<close>; the sizes and variable
  indices it mixes in are wider and are cut to 32 bits by the return.
\<close>

definition translate :: "'f Poseidon_gadget \<Rightarrow> 32 word \<Rightarrow> 32 word" where
  "translate g index =
     (if index = 0 then 0
      else if unat index \<le> length (instance_inputs g)
      then of_nat (instance_inputs g ! (unat index - 1))
      else instance_variables_offset g + (index - (1 + of_nat (length (instance_inputs g)))))"

text \<open>
  The constructor.  The number of variables to allocate is a difference of
  \<^verbatim>\<open>size_t\<close> values; were it negative it would wrap around to a size that no
  allocation can serve.
\<close>

definition Poseidon_gadget_T ::
  "backend \<Rightarrow> params \<Rightarrow> 'f::field world \<Rightarrow> 'f protoboard \<Rightarrow> var_index list
     \<Rightarrow> error + ('f Poseidon_gadget \<times> 'f protoboard \<times> 'f world)" where
  "Poseidon_gadget_T be prm w pb in_inputs =
     ebind (get_master be prm w) (\<lambda>(m, w1).
       let off = (of_nat (num_variables pb + 1) :: 32 word)
       in if num_variables (master_pb w1) < length in_inputs then Inl BadAlloc
          else let (vars, pb1) = make_var_array pb (num_variables (master_pb w1) - length in_inputs);
                   g = \<lparr>master = m, instance_inputs = in_inputs,
                        instance_variables_offset = off, res = 0\<rparr>
               in ebind (nth_err (output_vars m) 0) (\<lambda>ov.
                  Inr (g\<lparr>res := unat (translate g (of_nat ov))\<rparr>, pb1, w1)))"

definition instance_generate_r1cs_constraints ::
  "'f world \<Rightarrow> 'f Poseidon_gadget \<Rightarrow> 'f protoboard \<Rightarrow> 'f protoboard" where
  "instance_generate_r1cs_constraints w g pb =
     pb\<lparr>pb_constraints := pb_constraints pb @
          map (\<lambda>i. Light_Instance i (instance_inputs g) (instance_variables_offset g))
            [0 ..< length (pb_constraints (master_pb w))]\<rparr>"

definition instance_generate_r1cs_witness ::
  "params \<Rightarrow> 'f::field world \<Rightarrow> 'f Poseidon_gadget \<Rightarrow> 'f protoboard
     \<Rightarrow> error + ('f world \<times> 'f protoboard)" where
  "instance_generate_r1cs_witness prm w g pb =
     ebind (foldM (\<lambda>i mpb.
                     ebind (nth_err (instance_inputs g) i) (\<lambda>v.
                     ebind (pb_val pb v) (\<lambda>x.
                     pb_set_val (1 + i) x mpb)))
              [0 ..< length (instance_inputs g)] (master_pb w)) (\<lambda>mpb1.
     ebind (master_generate_r1cs_witness prm (master g) mpb1) (\<lambda>mpb2.
     ebind (foldM (\<lambda>i pb'.
                     ebind (pb_val mpb2 (1 + length (instance_inputs g) + i)) (\<lambda>x.
                     pb_set_val (unat (instance_variables_offset g + of_nat i)) x pb'))
              [0 ..< (if num_variables mpb2 < length (instance_inputs g)
                      then 2 ^ 64 + num_variables mpb2 - length (instance_inputs g)
                      else num_variables mpb2 - length (instance_inputs g))] pb) (\<lambda>pb'.
     Inr (w\<lparr>master_pb := mpb2\<rparr>, pb'))))"

definition instance_result :: "'f Poseidon_gadget \<Rightarrow> var_index" where
  "instance_result g = res g"

definition constraint_swapAB :: "'f constraint \<Rightarrow> 'f constraint" where
  "constraint_swapAB c =
     (case c of ConstraintT a b c' \<Rightarrow> ConstraintT b a c'
      | Light_Instance i ins off \<Rightarrow> Light_Instance i ins off)"

definition swapAB :: "'f world \<Rightarrow> 'f world" where
  "swapAB w =
     (if swapAB_flag w then w
      else w\<lparr>master_pb := (master_pb w)\<lparr>pb_constraints :=
                 map constraint_swapAB (pb_constraints (master_pb w))\<rparr>,
             swapAB_flag := True\<rparr>)"

section \<open>The meaning of linear combinations\<close>

text \<open>
  The value of a variable and of a combination under a witness table \<open>vs\<close>, as
  total functions: \<open>lc_val\<close> returns \<open>lc_sum\<close> of the board's table whenever
  every index of the combination is a variable of the board (\<open>lc_fits\<close>).
\<close>

definition var_value :: "'f::field list \<Rightarrow> var_index \<Rightarrow> 'f" where
  "var_value vs v = (if v = 0 then 1 else vs ! (v - 1))"

definition lc_sum :: "'f::field list \<Rightarrow> 'f linear_combination \<Rightarrow> 'f" where
  "lc_sum vs lc = sum_list (map (\<lambda>(i, a). a * var_value vs i) lc)"

definition lc_fits :: "nat \<Rightarrow> 'f linear_combination \<Rightarrow> bool" where
  "lc_fits n lc = list_all (\<lambda>(i, a). i \<le> n) lc"

text \<open>The S-boxes that \<open>make_sboxes\<close> allocates on a board of \<open>b\<close> variables.\<close>

definition sbox_at :: "nat \<Rightarrow> nat \<Rightarrow> FifthPower_gadget" where
  "sbox_at b h = \<lparr>x2 = b + 3 * h + 1, x4 = b + 3 * h + 2, x5 = b + 3 * h + 3\<rparr>"

section \<open>Closed forms of the output rows\<close>

text \<open>
  \<open>row_in_range\<close> says that the loops of \<open>make_outputs\<close> for a row stay inside
  the vectors of S-boxes and of states that they read; \<open>row_head\<close> is the row
  after the constant term and the S-box terms were added, \<open>row_lc\<close> the
  finished row.
\<close>

definition row_in_range ::
  "nat \<Rightarrow> nat \<Rightarrow> 'f linear_combination list \<Rightarrow> FifthPower_gadget list \<Rightarrow> bool" where
  "row_in_range nS nI in_state in_sboxes \<longleftrightarrow>
     (\<forall>s. s < nS \<longrightarrow> s < length in_sboxes) \<and>
     (\<forall>k. nS \<le> k \<and> k < nI \<longrightarrow> k < length in_state)"

definition row_head ::
  "nat \<Rightarrow> nat \<Rightarrow> 'f::field \<Rightarrow> 'f list \<Rightarrow> FifthPower_gadget list \<Rightarrow> nat \<Rightarrow> 'f linear_combination" where
  "row_head t nS c_i in_M in_sboxes i =
     (if nS < t then [(ONE, \<Sum>j = nS ..< t. c_i * in_M ! (i * t + j))] else []) @
     map (\<lambda>s. (x5 (in_sboxes ! s), in_M ! (i * t + s))) [0 ..< nS]"

definition row_lc ::
  "nat \<Rightarrow> nat \<Rightarrow> nat \<Rightarrow> 'f::field \<Rightarrow> 'f list \<Rightarrow> 'f linear_combination list \<Rightarrow> FifthPower_gadget list
     \<Rightarrow> nat \<Rightarrow> 'f linear_combination" where
  "row_lc t nS nI c_i in_M in_state in_sboxes i =
     fold (\<lambda>k lc. lc_plus lc (lc_times (in_state ! k) (in_M ! (i * t + k)))) [nS ..< nI]
       (row_head t nS c_i in_M in_sboxes i)"

section \<open>Rounds as built, and chains of rounds\<close>

text \<open>
  \<open>round_at\<close> is the round that the constructor builds on a board of \<open>b\<close>
  variables, \<open>round_ok\<close> the condition under which it does (the reads of the
  state are in range, both assertions hold), \<open>grow n\<close> the board after \<open>n\<close>
  allocations.  A chain is a
  sequence of rounds, each tagged with the template parameters
  \<open>(nSBox, nInputs, nOutputs)\<close> of its type, built one after the other, the
  state of each being the outputs of the one before.
\<close>

definition round_at ::
  "nat \<Rightarrow> nat \<Rightarrow> nat \<Rightarrow> nat \<Rightarrow> nat \<Rightarrow> 'f::field \<Rightarrow> 'f list \<Rightarrow> 'f linear_combination list
     \<Rightarrow> 'f Poseidon_Round" where
  "round_at t nS nI nO b c_i in_M in_state =
     \<lparr>C_i = c_i, M_ref = in_M, state = in_state,
      sboxes = map (sbox_at b) [0 ..< nS],
      outputs = map (row_lc t nS nI c_i in_M in_state (map (sbox_at b) [0 ..< nS])) [0 ..< nO]\<rparr>"

definition round_ok :: "nat \<Rightarrow> nat \<Rightarrow> nat \<Rightarrow> nat \<Rightarrow> nat \<Rightarrow> bool" where
  "round_ok t nS nI nO len_state \<longleftrightarrow>
     (0 < nO \<longrightarrow> (\<forall>k. nS \<le> k \<and> k < nI \<longrightarrow> k < len_state)) \<and>
     nI \<le> t \<and> nO \<le> t"

definition grow :: "nat \<Rightarrow> 'f::field protoboard \<Rightarrow> 'f protoboard" where
  "grow n pb = pb\<lparr>pb_values := pb_values pb @ replicate n 0\<rparr>"

type_synonym 'f tagged_round = "nat \<times> nat \<times> nat \<times> 'f Poseidon_Round"

fun chain :: "nat \<Rightarrow> 'f::field list \<Rightarrow> nat \<Rightarrow> 'f linear_combination list \<Rightarrow> 'f tagged_round list \<Rightarrow> bool" where
  "chain t in_M b st [] = True"
| "chain t in_M b st ((nS, nI, nO, r) # rest) =
     (round_ok t nS nI nO (length st) \<and> min nS nI \<le> length st \<and>
      r = round_at t nS nI nO b (C_i r) in_M st \<and>
      chain t in_M (b + 3 * nS) (outputs r) rest)"

fun chain_end :: "nat \<Rightarrow> 'f tagged_round list \<Rightarrow> nat" where
  "chain_end b [] = b"
| "chain_end b ((nS, nI, nO, r) # rest) = chain_end (b + 3 * nS) rest"

fun chain_out :: "'f linear_combination list \<Rightarrow> 'f tagged_round list \<Rightarrow> 'f linear_combination list" where
  "chain_out st [] = st"
| "chain_out st ((nS, nI, nO, r) # rest) = chain_out (outputs r) rest"

definition tagged_rounds :: "params \<Rightarrow> 'f Master_Poseidon_gadget \<Rightarrow> 'f tagged_round list" where
  "tagged_rounds prm m =
     (param_t prm, nInputs prm, param_t prm, first_round m) #
     map (\<lambda>r. (param_t prm, param_t prm, param_t prm, r)) (prefix_full_rounds m) @
     map (\<lambda>r. (param_c prm, param_t prm, param_t prm, r)) (partial_rounds m) @
     map (\<lambda>r. (param_t prm, param_t prm, param_t prm, r)) (suffix_full_rounds m) @
     [(param_t prm, param_t prm, nOutputs prm, last_round m)]"

section \<open>Instances of the backend for the examples\<close>

text \<open>
  The examples below need some BLAKE2b and some field size; nothing in them
  depends on which.  Their field is \<open>rat\<close>.
\<close>

definition example_backend :: backend where
  "example_backend = \<lparr>blake2b = (\<lambda>n bs. replicate n 0), size_in_bits = 254, modulus = 7\<rparr>"

text \<open>
  With \<open>example_backend\<close> every constant is \<open>0\<close>, and the matrix generator takes
  the inverse of \<open>0\<close>.  The second stand-in for the hash adds one to the first
  byte of its input: the seeds start with \<^verbatim>\<open>p\<close>, byte 112, so its constants are
  113, 114, \<open>\<dots>\<close>, they differ from each other, and the matrix never takes the
  inverse of \<open>0\<close>.
\<close>

definition distinct_backend :: backend where
  "distinct_backend =
     \<lparr>blake2b = (\<lambda>n bs. case bs of [] \<Rightarrow> replicate n 0 | b # _ \<Rightarrow> (b + 1) # replicate (n - 1) 0),
      size_in_bits = 254,
      modulus = 257\<rparr>"

section \<open>The constraints that the gadgets emit\<close>

text \<open>
  Closed forms of what \<open>generate_r1cs_constraints\<close> appends to a board: the three
  constraints of an S-box with input \<open>x\<close>, those of a round, of a chain of
  rounds, the output constraints and all constraints of a master.
\<close>

definition sbox_constraints :: "FifthPower_gadget \<Rightarrow> 'f::field linear_combination \<Rightarrow> 'f constraint list" where
  "sbox_constraints g x =
     [ConstraintT x x (lc_of_var (x2 g)),
      ConstraintT (lc_of_var (x2 g)) (lc_of_var (x2 g)) (lc_of_var (x4 g)),
      ConstraintT x (lc_of_var (x4 g)) (lc_of_var (x5 g))]"

definition sbox_input :: "nat \<Rightarrow> 'f::field Poseidon_Round \<Rightarrow> nat \<Rightarrow> 'f linear_combination" where
  "sbox_input nI r h =
     (if h < nI then lc_plus (state r ! h) (lc_of_field (C_i r)) else lc_of_field (C_i r))"

definition round_constraints :: "nat \<Rightarrow> nat \<Rightarrow> 'f::field Poseidon_Round \<Rightarrow> 'f constraint list" where
  "round_constraints nS nI r =
     concat (map (\<lambda>h. sbox_constraints (sboxes r ! h) (sbox_input nI r h)) [0 ..< nS])"

definition chain_constraints :: "'f::field tagged_round list \<Rightarrow> 'f constraint list" where
  "chain_constraints xs = concat (map (\<lambda>(nS, nI, nO, r). round_constraints nS nI r) xs)"

definition output_constraints :: "'f::field Master_Poseidon_gadget \<Rightarrow> 'f constraint list" where
  "output_constraints m =
     map (\<lambda>i. ConstraintT (outputs (last_round m) ! i) (lc_of_var ONE) (lc_of_var (output_vars m ! i)))
       [0 ..< length (outputs (last_round m))]"

definition emit :: "'f constraint list \<Rightarrow> 'f protoboard \<Rightarrow> 'f protoboard" where
  "emit cs pb = pb\<lparr>pb_constraints := pb_constraints pb @ cs\<rparr>"

definition master_constraints :: "params \<Rightarrow> 'f::field Master_Poseidon_gadget \<Rightarrow> 'f constraint list" where
  "master_constraints prm m =
     chain_constraints (tagged_rounds prm m) @
     (if constrainOutputs prm then output_constraints m else [])"

section \<open>Satisfying assignments\<close>

text \<open>
  What it means for a witness table \<open>vs\<close> to satisfy the S-boxes of a round built
  on a board of \<open>b\<close> variables: S-box \<open>h\<close> owns the table entries \<open>b + 3 * h\<close>,
  \<open>b + 3 * h + 1\<close> and \<open>b + 3 * h + 2\<close> (variables \<open>x2\<close>, \<open>x4\<close>, \<open>x5\<close>), and
  its input is the round constant plus, for the first \<open>nInputs\<close> S-boxes, the
  value of the state.  \<open>chain_witness\<close> runs \<open>generate_r1cs_witness\<close> of the rounds
  of a chain, one after the other.
\<close>

definition sbox_value :: "nat \<Rightarrow> 'f::field Poseidon_Round \<Rightarrow> 'f list \<Rightarrow> nat \<Rightarrow> 'f" where
  "sbox_value nI r vs h = (if h < nI then C_i r + lc_sum vs (state r ! h) else C_i r)"

definition sbox_sat :: "nat \<Rightarrow> nat \<Rightarrow> 'f::field Poseidon_Round \<Rightarrow> 'f list \<Rightarrow> nat \<Rightarrow> bool" where
  "sbox_sat b nI r vs h \<longleftrightarrow>
     vs ! (b + 3 * h) = sbox_value nI r vs h * sbox_value nI r vs h \<and>
     vs ! (b + 3 * h + 1) = vs ! (b + 3 * h) * vs ! (b + 3 * h) \<and>
     vs ! (b + 3 * h + 2) = vs ! (b + 3 * h + 1) * sbox_value nI r vs h"

definition sboxes_sat :: "nat \<Rightarrow> nat \<Rightarrow> nat \<Rightarrow> 'f::field Poseidon_Round \<Rightarrow> 'f list \<Rightarrow> bool" where
  "sboxes_sat b nS nI r vs \<longleftrightarrow> (\<forall>h. h < nS \<longrightarrow> sbox_sat b nI r vs h)"

definition states_fit :: "nat \<Rightarrow> 'f linear_combination list \<Rightarrow> bool" where
  "states_fit b st \<longleftrightarrow> list_all (lc_fits b) st"

fun chain_sat :: "nat \<Rightarrow> 'f::field tagged_round list \<Rightarrow> 'f list \<Rightarrow> bool" where
  "chain_sat b [] vs = True"
| "chain_sat b ((nS, nI, nO, r) # rest) vs =
     (sboxes_sat b nS nI r vs \<and> chain_sat (b + 3 * nS) rest vs)"

definition chain_witness :: "'f::field tagged_round list \<Rightarrow> 'f protoboard \<Rightarrow> error + 'f protoboard" where
  "chain_witness xs = foldM (\<lambda>(nS, nI, nO, r). round_generate_r1cs_witness nS nI r) xs"

section \<open>Boards of the same shape\<close>

text \<open>
  Two boards have the same shape when they have the same constraints and the
  same number of variables: they differ in the witness values at most.
\<close>

definition same_shape :: "'f protoboard \<Rightarrow> 'f protoboard \<Rightarrow> bool" where
  "same_shape pb pb' \<longleftrightarrow>
     pb_constraints pb' = pb_constraints pb \<and> length (pb_values pb') = length (pb_values pb)"

section \<open>Basic facts about the error monad and loops\<close>

lemma ebind_Inr [simp]: "ebind (Inr x) f = f x"
  by (simp add: ebind_def)

lemma ebind_Inl [simp]: "ebind (Inl e) f = Inl e"
  by (simp add: ebind_def)

lemma ebind_eq_Inr: "ebind m f = Inr y \<longleftrightarrow> (\<exists>x. m = Inr x \<and> f x = Inr y)"
  by (cases m) simp_all

lemma foldM_append: "foldM f (xs @ ys) s = ebind (foldM f xs s) (foldM f ys)"
  by (induction xs arbitrary: s) (simp_all split: sum.splits)

lemma foldM_single: "foldM f [x] = f x"
  by (rule ext) (simp split: sum.splits)

lemma foldM_snoc: "foldM f (xs @ [x]) s = ebind (foldM f xs s) (f x)"
  by (simp add: foldM_append foldM_single)

lemma foldM_upt_Suc: "a \<le> b \<Longrightarrow> foldM f [a ..< Suc b] s = ebind (foldM f [a ..< b] s) (f b)"
  by (simp add: foldM_snoc)

section \<open>The constant generator\<close>

lemma constants_loop_length:
  "length (snd (constants_loop k be out acc)) = length acc + k"
  by (induction k arbitrary: out acc) (simp_all add: Let_def)

lemma poseidon_constants_fill_length:
  "length (poseidon_constants_fill be seed n acc) = length acc + 1 + unat (n - 1)"
  by (simp add: poseidon_constants_fill_def Let_def constants_loop_length)

lemma Suc_unat_minus_one: "n \<noteq> 0 \<Longrightarrow> Suc (unat (n - 1 :: 32 word)) = unat n"
  by (metis Suc_pred' unat_minus_one unsigned_eq_0_iff zero_less_iff_neq_zero)

lemma constants_loop_prefix:
  "\<exists>ys. snd (constants_loop k be out acc) = acc @ ys"
proof (induction k arbitrary: out acc)
  case 0
  then show ?case by simp
next
  case (Suc k)
  then show ?case by (simp add: Let_def) (metis append.assoc)
qed

lemma constants_loop_nth:
  "i < k \<Longrightarrow> snd (constants_loop k be out acc) ! (length acc + i)
     = bytes_to_FieldT_littleendian be (((blake2b be (output_size be)) ^^ Suc i) out)"
proof (induction k arbitrary: out acc i)
  case 0
  then show ?case by simp
next
  case (Suc k)
  let ?o = "blake2b be (output_size be) out"
  let ?r = "acc @ [bytes_to_FieldT_littleendian be ?o :: 'a]"
  show ?case
  proof (cases i)
    case 0
    obtain ys where ys: "snd (constants_loop k be ?o ?r) = ?r @ ys"
      using constants_loop_prefix by blast
    show ?thesis using 0 by (simp add: Let_def ys nth_append)
  next
    case (Suc j)
    then have "j < k" using Suc.prems by simp
    from Suc.IH[OF this, of ?o ?r] show ?thesis using Suc
      by (simp add: Let_def funpow_swap1)
  qed
qed

lemma poseidon_constants_length_pos:
  "n \<noteq> 0 \<Longrightarrow> length (poseidon_constants be seed n) = unat n"
  using Suc_unat_minus_one[of n]
  by (simp add: poseidon_constants_def poseidon_constants_fill_length)

lemma poseidon_constants_nth:
  "i \<le> unat (n - 1) \<Longrightarrow>
     poseidon_constants be seed n ! i
       = bytes_to_FieldT_littleendian be
           (((blake2b be (output_size be)) ^^ Suc i) (bytes_of_string seed))"
proof (cases i)
  case 0
  let ?o = "blake2b be (output_size be) (bytes_of_string seed)"
  obtain ys where "snd (constants_loop (unat (n - 1)) be ?o [bytes_to_FieldT_littleendian be ?o :: 'a])
     = [bytes_to_FieldT_littleendian be ?o] @ ys"
    using constants_loop_prefix by blast
  then show ?thesis using 0
    by (simp add: poseidon_constants_def poseidon_constants_fill_def Let_def)
next
  case (Suc j)
  assume "i \<le> unat (n - 1)"
  then have j: "j < unat (n - 1)" using Suc by simp
  let ?o = "blake2b be (output_size be) (bytes_of_string seed)"
  from constants_loop_nth[OF j, of be ?o "[bytes_to_FieldT_littleendian be ?o :: 'a]"]
  show ?thesis using Suc
    by (simp add: poseidon_constants_def poseidon_constants_fill_def Let_def funpow_swap1)
qed


lemma foldM_collect:
  "(\<And>i acc. i \<in> set is \<Longrightarrow> f i acc = Inr (acc @ g i)) \<Longrightarrow>
     foldM f is acc = Inr (acc @ concat (map g is))"
  by (induction "is" arbitrary: acc) simp_all

lemma concat_map_upt_length:
  "(\<And>k. k < n \<Longrightarrow> length (g k) = m) \<Longrightarrow> length (concat (map g [0 ..< n])) = n * m"
  by (induction n) simp_all

lemma concat_map_upt_nth:
  "(\<And>k. k < n \<Longrightarrow> length (g k) = m) \<Longrightarrow> i < n \<Longrightarrow> j < m \<Longrightarrow>
     concat (map g [0 ..< n]) ! (i * m + j) = g i ! j"
proof (induction n)
  case 0
  then show ?case by simp
next
  case (Suc n)
  have len: "length (concat (map g [0 ..< n])) = n * m"
    using Suc.prems(1) by (intro concat_map_upt_length) simp
  show ?case
  proof (cases "i < n")
    case True
    then have "i * m + j < n * m"
      using Suc.prems(3)
      by (metis add.commute mult.commute less_Suc_eq_le mult_Suc_right mult_le_mono2 nat_add_left_cancel_less order_less_le_trans Suc_leI)
    with Suc True show ?thesis by (simp add: nth_append len)
  next
    case False
    then have "i = n" using Suc.prems(2) by simp
    then show ?thesis by (simp add: nth_append len)
  qed
qed

lemma unat_double: "unat (t :: 32 word) < 2 ^ 31 \<Longrightarrow> unat (t * 2) = 2 * unat t"
  by (simp add: unat_word_ariths)

lemma unat_plus_of_nat:
  "unat (t :: 32 word) < 2 ^ 31 \<Longrightarrow> j < unat t \<Longrightarrow> unat (t + of_nat j) = unat t + j"
  by (simp add: unat_word_ariths unat_of_nat)

lemma poseidon_matrix_fill_ok:
  fixes t :: "32 word" and acc :: "'f::field list" and be seed
  assumes pos: "0 < unat t" and small: "unat t < 2 ^ 31"
  defines "c \<equiv> (poseidon_constants be seed (t * 2) :: 'f list)"
  shows "poseidon_matrix_fill be seed t acc
           = Inr (acc @ concat (map (\<lambda>i. map (\<lambda>j. inverse (c ! i - c ! (unat t + j))) [0 ..< unat t])
                                 [0 ..< unat t]))"
proof -
  have t2: "unat (t * 2) = 2 * unat t" using small by (rule unat_double)
  then have "t * 2 \<noteq> 0" using pos by (metis mult_is_0 not_less_zero unat_0 zero_neq_numeral less_numeral_extra(3))
  then have len: "length c = 2 * unat t"
    by (simp add: c_def poseidon_constants_length_pos t2)
  have inner: "foldM (\<lambda>j acc'.
                  ebind (nth_err c i) (\<lambda>ci.
                  ebind (nth_err c (unat (t + of_nat j))) (\<lambda>cj.
                  Inr (acc' @ [inverse (ci - cj)]))))
                [0 ..< unat t] a
        = Inr (a @ concat (map (\<lambda>j. [inverse (c ! i - c ! (unat t + j))]) [0 ..< unat t]))"
    if "i \<in> set [0 ..< unat t]" for i a
  proof (rule foldM_collect)
    fix j a'
    assume "j \<in> set [0 ..< unat t]"
    then have j: "j < unat t" by simp
    have i: "i < unat t" using that by simp
    have "unat (t + of_nat j) = unat t + j" using small j by (rule unat_plus_of_nat)
    then show "ebind (nth_err c i) (\<lambda>ci.
                  ebind (nth_err c (unat (t + of_nat j))) (\<lambda>cj.
                  Inr (a' @ [inverse (ci - cj)]))) = Inr (a' @ [inverse (c ! i - c ! (unat t + j))])"
      using i j len by (simp add: nth_err_def)
  qed
  have flat: "concat (map (\<lambda>j. [h j]) js) = map h js" for h :: "nat \<Rightarrow> 'f" and js
    by (induction js) simp_all
  show ?thesis
    unfolding poseidon_matrix_fill_def Let_def c_def[symmetric]
    by (rule foldM_collect[where g = "\<lambda>i. map (\<lambda>j. inverse (c ! i - c ! (unat t + j))) [0 ..< unat t]"])
      (simp add: inner flat)
qed

lemma poseidon_matrix_ok:
  fixes t :: "32 word"
  assumes pos: "0 < unat t" and small: "unat t < 2 ^ 31"
  shows "\<exists>ms :: 'f::field list. poseidon_matrix be seed t = Inr ms \<and> length ms = unat t * unat t \<and>
           (\<forall>i < unat t. \<forall>j < unat t.
              ms ! (i * unat t + j)
                = inverse (poseidon_constants be seed (t * 2) ! i
                           - poseidon_constants be seed (t * 2) ! (unat t + j)))"
proof -
  let ?c = "poseidon_constants be seed (t * 2) :: 'f list"
  let ?g = "\<lambda>i. map (\<lambda>j. inverse (?c ! i - ?c ! (unat t + j))) [0 ..< unat t]"
  have eq: "poseidon_matrix be seed t = Inr (concat (map ?g [0 ..< unat t]))"
    using poseidon_matrix_fill_ok[OF pos small, of be seed "[]"] by (simp add: poseidon_matrix_def)
  have len: "length (concat (map ?g [0 ..< unat t])) = unat t * unat t"
    by (rule concat_map_upt_length) simp
  have nth: "concat (map ?g [0 ..< unat t]) ! (i * unat t + j) = inverse (?c ! i - ?c ! (unat t + j))"
    if "i < unat t" "j < unat t" for i j
    using concat_map_upt_nth[where g = ?g and n = "unat t" and m = "unat t" and i = i and j = j] that
    by simp
  show ?thesis using eq len nth by simp
qed

lemma poseidon_params_ok:
  fixes pt pF pP :: "32 word"
  assumes "0 < unat pt" and "unat pt < 2 ^ 31"
  shows "\<exists>ms :: 'f::field list.
           poseidon_params be pt pF pP
             = Inr \<lparr>C = poseidon_constants_fill be ''poseidon_constants'' (pF + pP) [], M = ms\<rparr> \<and>
           length ms = unat pt * unat pt"
proof -
  obtain ms :: "'f list" where
    "poseidon_matrix be ''poseidon_matrix_0000'' pt = Inr ms" "length ms = unat pt * unat pt"
    using poseidon_matrix_ok[OF assms] by blast
  then show ?thesis
    by (simp add: poseidon_params_def poseidon_matrix_def Let_def)
qed

text \<open>
  Claim C4.  The constant generator, for a seed and a count \<open>n\<close>, produces \<open>n\<close>
  field elements, the element \<open>i\<close> being the decoding of \<open>i + 1\<close> applications of
  BLAKE2b (output length \<open>L = (bits + (8 - bits mod 8)) div 8\<close>) to the seed.
  The lemmas \<open>poseidon_constants_length_pos\<close> and \<open>poseidon_constants_nth\<close> show
  this for every count but \<open>0\<close>.  For the count \<open>0\<close> the first element is
  appended all the same and the loop bound \<open>n_constants - 1\<close> wraps around to
  \<open>2 ^ 32 - 1\<close>: the generator appends \<open>2 ^ 32\<close> elements, not none.
\<close>

theorem poseidon_constants_fill_zero_count:
  "length (poseidon_constants_fill be seed 0 acc) = length acc + 2 ^ 32"
  by (simp add: poseidon_constants_fill_length unsigned_minus_1_eq_mask mask_eq_exp_minus_1)

text \<open>
  Claim C5.  For a state size \<open>t\<close> the matrix generator derives \<open>2 * t\<close> elements
  \<open>c\<close> from its seed and produces the \<open>t * t\<close> entries
  \<open>M[i * t + j] = inverse (c[i] - c[t + j])\<close>, and the round constants of
  \<open>poseidon_params\<close> are \<open>F + P\<close> many.  The lemmas \<open>poseidon_matrix_ok\<close> and
  \<open>poseidon_params_ok\<close> show the matrix part for \<open>0 < t < 2 ^ 31\<close>, and
  \<open>poseidon_constants_length_pos\<close> the count of the constants where it is not
  \<open>0\<close>.  Where the count handed to the constant generator is \<open>0\<close>, it derives
  \<open>2 ^ 32\<close> elements: for the state size \<open>0\<close>, and for \<open>F + P = 0\<close> rounds.
\<close>

theorem poseidon_params_zero_count:
  "length (poseidon_constants be seed ((0 :: 32 word) * 2) :: 'f::field list) = 2 ^ 32 \<and>
   map_sum id (\<lambda>k. length (C k)) (poseidon_params be 6 0 0 :: error + 'f PoseidonConstants)
     = Inr (2 ^ 32)"
proof -
  obtain ms :: "'f list" where
    "poseidon_params be 6 0 0
       = Inr \<lparr>C = poseidon_constants_fill be ''poseidon_constants'' (0 + 0) [], M = ms\<rparr>"
    using poseidon_params_ok[of 6 be 0 0] by auto
  then show ?thesis
    by (simp add: poseidon_constants_def poseidon_constants_fill_length
        unsigned_minus_1_eq_mask mask_eq_exp_minus_1)
qed

section \<open>Facts about linear combinations\<close>

lemma var_value_zero [simp]: "var_value vs 0 = 1"
  by (simp add: var_value_def)

lemma lc_sum_Nil [simp]: "lc_sum vs [] = 0"
  by (simp add: lc_sum_def)

lemma lc_sum_Cons [simp]: "lc_sum vs ((i, a) # lc) = a * var_value vs i + lc_sum vs lc"
  by (simp add: lc_sum_def)

lemma lc_sum_append [simp]: "lc_sum vs (xs @ ys) = lc_sum vs xs + lc_sum vs ys"
  by (simp add: lc_sum_def)

lemma lc_sum_plus: "lc_sum vs (lc_plus xs ys) = lc_sum vs xs + lc_sum vs ys"
  by (induction xs ys rule: lc_plus.induct) (simp_all add: algebra_simps)

lemma lc_sum_times: "lc_sum vs (lc_times xs c) = lc_sum vs xs * c"
  by (induction xs) (auto simp: lc_times_def algebra_simps)

lemma lc_fits_Nil [simp]: "lc_fits n []"
  by (simp add: lc_fits_def)

lemma lc_fits_Cons [simp]: "lc_fits n ((i, a) # lc) \<longleftrightarrow> i \<le> n \<and> lc_fits n lc"
  by (simp add: lc_fits_def)

lemma lc_fits_append [simp]: "lc_fits n (xs @ ys) \<longleftrightarrow> lc_fits n xs \<and> lc_fits n ys"
  by (simp add: lc_fits_def)

lemma lc_fits_plus: "lc_fits n xs \<Longrightarrow> lc_fits n ys \<Longrightarrow> lc_fits n (lc_plus xs ys)"
  by (induction xs ys rule: lc_plus.induct) simp_all

lemma lc_fits_times: "lc_fits n xs \<Longrightarrow> lc_fits n (lc_times xs c)"
  by (induction xs) (auto simp: lc_times_def)

lemma lc_fits_mono: "lc_fits n xs \<Longrightarrow> n \<le> m \<Longrightarrow> lc_fits m xs"
  by (induction xs) auto

lemma lc_val_aux:
  "lc_fits (length (pb_values pb)) lc \<Longrightarrow>
     foldM (\<lambda>(i, a) acc. ebind (pb_val pb i) (\<lambda>x. Inr (acc + a * x))) lc s
       = Inr (s + lc_sum (pb_values pb) lc)"
  by (induction lc arbitrary: s) (auto simp: pb_val_def var_value_def algebra_simps)

lemma lc_val_fits:
  "lc_fits (length (pb_values pb)) lc \<Longrightarrow> lc_val pb lc = Inr (lc_sum (pb_values pb) lc)"
  by (simp add: lc_val_def lc_val_aux)

lemma lc_val_aux_Inr:
  "foldM (\<lambda>(i, a) acc. ebind (pb_val pb i) (\<lambda>x. Inr (acc + a * x))) lc s = Inr y
     \<Longrightarrow> lc_fits (length (pb_values pb)) lc"
  by (induction lc arbitrary: s) (auto simp: pb_val_def ebind_eq_Inr split: if_splits sum.splits)

lemma lc_val_eq_Inr:
  "lc_val pb lc = Inr y \<longleftrightarrow> lc_fits (length (pb_values pb)) lc \<and> y = lc_sum (pb_values pb) lc"
  using lc_val_aux_Inr[of pb lc 0 y] lc_val_fits[of pb lc] by (auto simp: lc_val_def)

section \<open>Loops over index ranges\<close>

lemma foldM_range_char:
  assumes step: "\<And>i s. a \<le> i \<Longrightarrow> i < b \<Longrightarrow> f i s = (if ok i then Inr (g i s) else Inl e)"
  shows "foldM f [a ..< b] s
           = (if \<forall>i. a \<le> i \<and> i < b \<longrightarrow> ok i then Inr (fold g [a ..< b] s) else Inl e)"
  using step
proof (induction b)
  case 0
  then show ?case by simp
next
  case (Suc b)
  show ?case
  proof (cases "a \<le> b")
    case True
    have IH: "foldM f [a ..< b] s
           = (if \<forall>i. a \<le> i \<and> i < b \<longrightarrow> ok i then Inr (fold g [a ..< b] s) else Inl e)"
      using Suc by simp
    have last: "f b s' = (if ok b then Inr (g b s') else Inl e)" for s'
      using Suc.prems True by simp
    have all: "(\<forall>i. a \<le> i \<and> i < Suc b \<longrightarrow> ok i) \<longleftrightarrow> (\<forall>i. a \<le> i \<and> i < b \<longrightarrow> ok i) \<and> ok b"
      using True less_Suc_eq by auto
    show ?thesis
      unfolding all using True by (simp add: foldM_snoc IH last)
  next
    case False
    then show ?thesis by simp
  qed
qed

section \<open>The round gadget: construction\<close>

lemma fold_add_sum:
  "fold (\<lambda>j acc. acc + h j) [a ..< b] (s :: 'a :: comm_monoid_add) = s + sum h {a ..< b}"
proof (induction b)
  case 0
  then show ?case by simp
next
  case (Suc b)
  then show ?case
    by (cases "a \<le> b") (simp_all add: sum.atLeastLessThan_Suc add.assoc)
qed

lemma fold_snoc_map: "fold (\<lambda>i acc. acc @ [h i]) xs acc = acc @ map h xs"
  by (induction xs arbitrary: acc) simp_all

lemma fold_update_upt:
  "k \<le> length xs \<Longrightarrow> fold (\<lambda>i ret. ret[i := h i]) [0 ..< k] xs = map h [0 ..< k] @ drop k xs"
proof (induction k)
  case 0
  then show ?case by simp
next
  case (Suc k)
  then have k: "k < length xs" by simp
  have d: "drop k xs = xs ! k # drop (Suc k) xs"
    using k by (simp add: Cons_nth_drop_Suc)
  have "(map h [0 ..< k] @ drop k xs)[k := h k] = map h [0 ..< k] @ (drop k xs)[0 := h k]"
    by (simp add: list_update_append)
  also have "\<dots> = map h [0 ..< k] @ h k # drop (Suc k) xs"
    by (simp add: d)
  finally show ?case using Suc by simp
qed

lemma constant_term_loop_char:
  "constant_term_loop t nS c_i in_M off = (\<Sum>j = nS ..< t. c_i * in_M ! (off + j))"
  by (simp add: constant_term_loop_def fold_add_sum)

lemma sbox_terms_loop_char:
  "sbox_terms_loop nS in_M in_sboxes off lc0
     = (if \<forall>s. 0 \<le> s \<and> s < nS \<longrightarrow> s < length in_sboxes
        then Inr (lc0 @ map (\<lambda>s. (x5 (in_sboxes ! s), in_M ! (off + s))) [0 ..< nS])
        else Inl OutOfRange)"
proof -
  have "sbox_terms_loop nS in_M in_sboxes off lc0
     = (if \<forall>s. 0 \<le> s \<and> s < nS \<longrightarrow> s < length in_sboxes
        then Inr (fold (\<lambda>s lc. lc @ [(x5 (in_sboxes ! s), in_M ! (off + s))]) [0 ..< nS] lc0)
        else Inl OutOfRange)"
    unfolding sbox_terms_loop_def
    by (rule foldM_range_char) (simp add: nth_err_def add_term_def fp_result_def)
  then show ?thesis by (simp add: fold_snoc_map)
qed

lemma state_terms_loop_char:
  "state_terms_loop nS nI in_M in_state off lc0
     = (if \<forall>k. nS \<le> k \<and> k < nI \<longrightarrow> k < length in_state
        then Inr (fold (\<lambda>k lc. lc_plus lc (lc_times (in_state ! k) (in_M ! (off + k)))) [nS ..< nI] lc0)
        else Inl OutOfRange)"
  unfolding state_terms_loop_def
  by (rule foldM_range_char) (simp add: nth_err_def)

lemma output_row_char:
  "output_row t nS nI c_i in_M in_state in_sboxes i
     = (if row_in_range nS nI in_state in_sboxes
        then Inr (row_lc t nS nI c_i in_M in_state in_sboxes i) else Inl OutOfRange)"
  by (auto simp: output_row_def Let_def constant_term_loop_char sbox_terms_loop_char
      state_terms_loop_char row_in_range_def row_lc_def row_head_def add_term_def)

lemma make_outputs_char:
  "make_outputs t nS nI nO c_i in_M in_state in_sboxes
     = (if 0 < nO \<longrightarrow> row_in_range nS nI in_state in_sboxes
        then Inr (map (row_lc t nS nI c_i in_M in_state in_sboxes) [0 ..< nO])
        else Inl OutOfRange)"
proof -
  have "make_outputs t nS nI nO c_i in_M in_state in_sboxes
     = (if \<forall>i. 0 \<le> i \<and> i < nO \<longrightarrow> row_in_range nS nI in_state in_sboxes
        then Inr (fold (\<lambda>i ret. ret[i := row_lc t nS nI c_i in_M in_state in_sboxes i]) [0 ..< nO]
                    (replicate nO []))
        else Inl OutOfRange)"
    unfolding make_outputs_def
    by (rule foldM_range_char) (simp add: output_row_char)
  moreover have "(\<forall>i. 0 \<le> i \<and> i < nO \<longrightarrow> row_in_range nS nI in_state in_sboxes)
      \<longleftrightarrow> (0 < nO \<longrightarrow> row_in_range nS nI in_state in_sboxes)"
    by auto
  ultimately show ?thesis by (simp add: fold_update_upt)
qed

lemma make_sboxes_char:
  "make_sboxes nS pb
     = (map (sbox_at (num_variables pb)) [0 ..< nS],
        pb\<lparr>pb_values := pb_values pb @ replicate (3 * nS) 0\<rparr>)"
proof (induction nS)
  case 0
  then show ?case by simp
next
  case (Suc nS)
  have rep: "replicate (3 * nS) (0::'a) @ [0, 0, 0] = replicate (3 + 3 * nS) 0"
  proof -
    have "replicate (3 * nS) (0::'a) @ [0, 0, 0] = replicate (3 * nS) 0 @ replicate 3 0"
      by (simp add: numeral_3_eq_3)
    also have "\<dots> = replicate (3 * nS + 3) 0"
      by (simp only: replicate_add)
    finally show ?thesis by (simp add: add.commute)
  qed
  show ?case
    by (simp add: Suc FifthPower_gadget_new_def make_variable_def num_variables_def sbox_at_def
        rep)
qed

lemma Poseidon_Round_new_char:
  "Poseidon_Round_new t nS nI nO pb c_i in_M in_state
     = (let sbs = map (sbox_at (num_variables pb)) [0 ..< nS] in
        if \<not> (0 < nO \<longrightarrow> row_in_range nS nI in_state sbs) then Inl OutOfRange
        else if \<not> nI \<le> t then Inl (AssertFailed ''nInputs <= param_t'')
        else if \<not> nO \<le> t then Inl (AssertFailed ''nOutputs <= param_t'')
        else Inr (\<lparr>C_i = c_i, M_ref = in_M, state = in_state, sboxes = sbs,
                    outputs = map (row_lc t nS nI c_i in_M in_state sbs) [0 ..< nO]\<rparr>,
                  pb\<lparr>pb_values := pb_values pb @ replicate (3 * nS) 0\<rparr>))"
  by (simp add: Poseidon_Round_new_def make_sboxes_char make_outputs_char Let_def)

lemma lc_sum_fold_plus:
  "lc_sum vs (fold (\<lambda>k lc. lc_plus lc (h k)) ks lc0)
     = lc_sum vs lc0 + sum_list (map (\<lambda>k. lc_sum vs (h k)) ks)"
  by (induction ks arbitrary: lc0) (simp_all add: lc_sum_plus add.assoc)

lemma lc_sum_map:
  "lc_sum vs (map (\<lambda>s. (v s, a s)) ss) = sum_list (map (\<lambda>s. a s * var_value vs (v s)) ss)"
  by (induction ss) simp_all

lemma lc_sum_row_lc:
  "lc_sum vs (row_lc t nS nI c_i in_M in_state in_sboxes i)
     = (\<Sum>s < nS. in_M ! (i * t + s) * var_value vs (x5 (in_sboxes ! s)))
       + (\<Sum>k = nS ..< nI. in_M ! (i * t + k) * lc_sum vs (in_state ! k))
       + (if nS < t then (\<Sum>j = nS ..< t. c_i * in_M ! (i * t + j)) else 0)"
proof -
  have a: "sum_list (map (\<lambda>s. in_M ! (i * t + s) * var_value vs (x5 (in_sboxes ! s))) [0 ..< nS])
      = (\<Sum>s < nS. in_M ! (i * t + s) * var_value vs (x5 (in_sboxes ! s)))"
    by (simp add: interv_sum_list_conv_sum_set_nat atLeast0LessThan)
  have b: "sum_list (map (\<lambda>k. lc_sum vs (lc_times (in_state ! k) (in_M ! (i * t + k)))) [nS ..< nI])
      = (\<Sum>k = nS ..< nI. in_M ! (i * t + k) * lc_sum vs (in_state ! k))"
    by (simp add: interv_sum_list_conv_sum_set_nat lc_sum_times mult.commute)
  show ?thesis
    unfolding row_lc_def row_head_def lc_sum_fold_plus lc_sum_append lc_sum_map a b
    by (simp add: ONE_def var_value_def)
qed

text \<open>
  Claim C3.  A round built with the parameters \<open>(t, nS, nI, nO)\<close> has \<open>nO\<close>
  outputs, and output \<open>i\<close> is the combination that starts with the constant
  term \<open>\<Sum>j = nS ..< t. c_i * M[i * t + j]\<close> as one term on variable \<open>0\<close> (only when
  \<open>nS < t\<close>), continues with the terms \<open>M[i * t + s] * sbox[s].result()\<close> for
  \<open>s < nS\<close> and then has \<open>M[i * t + k] * state[k]\<close> added for \<open>nS \<le> k < nI\<close>.  Under
  every witness table its value is the sum of the three parts.
\<close>

theorem Poseidon_Round_outputs:
  assumes "Poseidon_Round_new t nS nI nO pb c_i in_M in_state = Inr (r, pb')" and "i < nO"
  shows "length (outputs r) = nO \<and>
         outputs r ! i =
           fold (\<lambda>k lc. lc_plus lc (lc_times (in_state ! k) (in_M ! (i * t + k)))) [nS ..< nI]
             ((if nS < t then [(ONE, \<Sum>j = nS ..< t. c_i * in_M ! (i * t + j))] else []) @
              map (\<lambda>s. (fp_result (sboxes r ! s), in_M ! (i * t + s))) [0 ..< nS]) \<and>
         (\<forall>vs. lc_sum vs (outputs r ! i) =
            (\<Sum>s < nS. in_M ! (i * t + s) * var_value vs (fp_result (sboxes r ! s)))
            + (\<Sum>k = nS ..< nI. in_M ! (i * t + k) * lc_sum vs (in_state ! k))
            + (if nS < t then (\<Sum>j = nS ..< t. c_i * in_M ! (i * t + j)) else 0))"
proof -
  let ?sbs = "map (sbox_at (num_variables pb)) [0 ..< nS]"
  from assms(1) have r: "sboxes r = ?sbs"
    "outputs r = map (row_lc t nS nI c_i in_M in_state ?sbs) [0 ..< nO]"
    by (auto simp: Poseidon_Round_new_char Let_def split: if_splits)
  have nth: "outputs r ! i = row_lc t nS nI c_i in_M in_state (sboxes r) i"
    using assms(2) r by simp
  show ?thesis
    unfolding nth lc_sum_row_lc
    by (simp add: r(2) row_lc_def row_head_def fp_result_def)
qed

theorem Poseidon_Round_outputs_witness:
  "\<exists>r pb'. Poseidon_Round_new 2 1 2 2 protoboard_new (3 :: rat) [1, 2, 3, 4] [[(1, 1)], [(2, 1)]]
              = Inr (r, pb') \<and>
           length (outputs r) = 2 \<and>
           outputs r ! 1 = [(0, 12), (2, 4), (3, 3)] \<and>
           (\<forall>vs. lc_sum vs (outputs r ! 1) = 3 * var_value vs 3 + 4 * lc_sum vs [(2, 1)] + 12)"
proof -
  obtain r pb' where
    eq: "Poseidon_Round_new 2 1 2 2 protoboard_new (3 :: rat) [1, 2, 3, 4] [[(1, 1)], [(2, 1)]]
           = Inr (r, pb')"
    by (simp add: Poseidon_Round_new_char Let_def row_in_range_def)
  then have sb: "sboxes r = [sbox_at 0 0]"
    by (auto simp: Poseidon_Round_new_char Let_def row_in_range_def protoboard_new_def
        num_variables_def split: if_splits)
  have one: "(1 :: nat) < 2" by simp
  have u: "[Suc 0 ..< 2] = [Suc 0]" by (simp add: numeral_2_eq_2)
  from Poseidon_Round_outputs[OF eq one] sb show ?thesis
    using eq by (simp add: sbox_at_def fp_result_def ONE_def lc_times_def u)
qed

section \<open>Construction of rounds and of the master\<close>

lemma row_in_range_sboxes:
  "(0 < nO \<longrightarrow> row_in_range nS nI in_state (map (sbox_at b) [0 ..< nS]))
     \<longleftrightarrow> (0 < nO \<longrightarrow> (\<forall>k. nS \<le> k \<and> k < nI \<longrightarrow> k < length in_state))"
  by (simp add: row_in_range_def)

lemma Poseidon_Round_new_eq_Inr:
  "Poseidon_Round_new t nS nI nO pb c_i in_M in_state = Inr (r, pb') \<longleftrightarrow>
     round_ok t nS nI nO (length in_state) \<and>
     r = round_at t nS nI nO (num_variables pb) c_i in_M in_state \<and>
     pb' = grow (3 * nS) pb"
  unfolding Poseidon_Round_new_char Let_def row_in_range_sboxes round_ok_def round_at_def grow_def
  by auto

lemma Poseidon_Round_new_cases:
  fixes pb :: "'f::field protoboard"
  defines "rng \<equiv> \<lambda>nS nI nO (in_state :: 'f linear_combination list).
             0 < nO \<longrightarrow> (\<forall>k. nS \<le> k \<and> k < nI \<longrightarrow> k < length in_state)"
  shows "\<not> rng nS nI nO in_state \<Longrightarrow>
           Poseidon_Round_new t nS nI nO pb c_i in_M in_state = Inl OutOfRange"
    and "rng nS nI nO in_state \<Longrightarrow> \<not> nI \<le> t \<Longrightarrow>
           Poseidon_Round_new t nS nI nO pb c_i in_M in_state
             = Inl (AssertFailed ''nInputs <= param_t'')"
    and "rng nS nI nO in_state \<Longrightarrow> nI \<le> t \<Longrightarrow> \<not> nO \<le> t \<Longrightarrow>
           Poseidon_Round_new t nS nI nO pb c_i in_M in_state
             = Inl (AssertFailed ''nOutputs <= param_t'')"
    and "rng nS nI nO in_state \<Longrightarrow> nI \<le> t \<Longrightarrow> nO \<le> t \<Longrightarrow>
           \<exists>x. Poseidon_Round_new t nS nI nO pb c_i in_M in_state = Inr x"
  unfolding rng_def Poseidon_Round_new_char Let_def row_in_range_sboxes by simp_all

lemma Poseidon_Round_new_error:
  assumes "Poseidon_Round_new t nS nI nO pb c_i in_M in_state = Inl e"
  shows "e = OutOfRange \<or> e = AssertFailed ''nInputs <= param_t'' \<and> \<not> nI \<le> t
       \<or> e = AssertFailed ''nOutputs <= param_t'' \<and> \<not> nO \<le> t"
proof -
  let ?rng = "0 < nO \<longrightarrow> (\<forall>k. nS \<le> k \<and> k < nI \<longrightarrow> k < length in_state)"
  note c = Poseidon_Round_new_cases
  consider (a) "\<not> ?rng" | (b) "?rng" "\<not> nI \<le> t" | (c) "?rng" "nI \<le> t" "\<not> nO \<le> t"
    | (d) "?rng" "nI \<le> t" "nO \<le> t"
    by blast
  then show ?thesis
  proof cases
    case a
    from c(1)[OF a, of t pb c_i in_M] assms show ?thesis by simp
  next
    case b
    from c(2)[OF b, of pb c_i in_M] assms b(2) show ?thesis by simp
  next
    case c
    from Poseidon_Round_new_cases(3)[OF c, of pb c_i in_M] assms c(3) show ?thesis by simp
  next
    case d
    from c(4)[OF d, of pb c_i in_M] assms show ?thesis by auto
  qed
qed

lemma Poseidon_Round_new_fails:
  assumes "\<not> nI \<le> t \<or> \<not> nO \<le> t"
  shows "\<exists>e. Poseidon_Round_new t nS nI nO pb c_i in_M in_state = Inl e"
proof (cases "Poseidon_Round_new t nS nI nO pb c_i in_M in_state")
  case (Inl e)
  then show ?thesis by simp
next
  case (Inr x)
  obtain r pb' where "x = (r, pb')" by (cases x)
  with Inr have "round_ok t nS nI nO (length in_state)"
    by (simp add: Poseidon_Round_new_eq_Inr)
  then show ?thesis using assms by (simp add: round_ok_def)
qed

lemma round_ok_suff:
  assumes "nI \<le> t" "nO \<le> t" "nS < nI \<Longrightarrow> nI \<le> len_state"
  shows "round_ok t nS nI nO len_state"
  using assms by (auto simp: round_ok_def)

lemma grow_grow [simp]: "grow n (grow k pb) = grow (k + n) pb"
  by (simp add: grow_def replicate_add)

lemma grow_0 [simp]: "grow 0 pb = pb"
  by (simp add: grow_def)

lemma num_variables_grow [simp]: "num_variables (grow n pb) = num_variables pb + n"
  by (simp add: grow_def num_variables_def)

lemma pb_constraints_grow [simp]: "pb_constraints (grow n pb) = pb_constraints pb"
  by (simp add: grow_def)

lemma length_outputs_round_at [simp]:
  "length (outputs (round_at t nS nI nO b c_i in_M in_state)) = nO"
  by (simp add: round_at_def)

lemma chain_append:
  "chain t in_M b st (xs @ ys) \<longleftrightarrow>
     chain t in_M b st xs \<and> chain t in_M (chain_end b xs) (chain_out st xs) ys"
  by (induction xs arbitrary: b st) auto

lemma chain_end_append: "chain_end b (xs @ ys) = chain_end (chain_end b xs) ys"
  by (induction xs arbitrary: b) auto

lemma chain_out_append: "chain_out st (xs @ ys) = chain_out (chain_out st xs) ys"
  by (induction xs arbitrary: st) auto

lemma chain_end_map: "chain_end b (map (\<lambda>r. (nS, nI, nO, r)) rs) = b + 3 * nS * length rs"
  by (induction rs arbitrary: b) (simp_all add: algebra_simps)

lemma chain_out_map:
  "chain_out st (map (\<lambda>r. (nS, nI, nO, r)) rs) = (if rs = [] then st else outputs (last rs))"
  by (induction rs arbitrary: st) simp_all

lemma round_at_C_i [simp]: "C_i (round_at t nS nI nO b c in_M st) = c"
  by (simp add: round_at_def)

text \<open>The loop of \<open>make_rounds\<close>, with its invariant.\<close>

lemma make_rounds_loop:
  assumes "n_begin \<le> n"
    and "foldM (\<lambda>i (result, pb').
              ebind (if i = n_begin then Inr inputs
                     else ebind (vec_back result) (\<lambda>r. Inr (outputs r))) (\<lambda>st.
              ebind (nth_err (C consts) i) (\<lambda>ci.
              ebind (Poseidon_Round_new t nS nI nO pb' ci (M consts) st) (\<lambda>(r, pb'').
              Inr (result @ [r], pb'')))))
       [n_begin ..< n] ([], pb) = Inr (rs, pb1)"
    and "min nS nI \<le> length inputs" "min nS nI \<le> nO"
  shows "chain t (M consts) (num_variables pb) inputs (map (\<lambda>r. (nS, nI, nO, r)) rs) \<and>
         length rs = n - n_begin \<and> pb1 = grow (3 * nS * length rs) pb \<and>
         (\<forall>r \<in> set rs. length (outputs r) = nO)"
  using assms(1,2)
proof (induction n arbitrary: rs pb1)
  case 0
  then show ?case by simp
next
  case (Suc n)
  let ?f = "(\<lambda>i (result, pb').
              ebind (if i = n_begin then Inr inputs
                     else ebind (vec_back result) (\<lambda>r. Inr (outputs r))) (\<lambda>st.
              ebind (nth_err (C consts) i) (\<lambda>ci.
              ebind (Poseidon_Round_new t nS nI nO pb' ci (M consts) st) (\<lambda>(r, pb'').
              Inr (result @ [r], pb'')))))"
  show ?case
  proof (cases "n_begin \<le> n")
    case False
    then have "n_begin = Suc n" using Suc.prems(1) by simp
    then show ?thesis using Suc.prems(2) by simp
  next
    case True
    from Suc.prems(2) True obtain rs0 pb0 where
      prev: "foldM ?f [n_begin ..< n] ([], pb) = Inr (rs0, pb0)"
      and step: "?f n (rs0, pb0) = Inr (rs, pb1)"
      by (auto simp: foldM_snoc ebind_eq_Inr)
    from Suc.IH[OF True prev] have
      ch: "chain t (M consts) (num_variables pb) inputs (map (\<lambda>r. (nS, nI, nO, r)) rs0)"
      and len: "length rs0 = n - n_begin" and pb0: "pb0 = grow (3 * nS * length rs0) pb"
      and outs: "\<forall>r \<in> set rs0. length (outputs r) = nO"
      by auto
    define st where "st = (if rs0 = [] then inputs else outputs (last rs0))"
    have st_eq: "(if n = n_begin then Inr inputs
                  else ebind (vec_back rs0) (\<lambda>r. Inr (outputs r))) = (Inr st :: error + _)"
      using len True by (auto simp: st_def vec_back_def)
    from step obtain ci r where
      ci: "nth_err (C consts) n = Inr ci"
      and new: "Poseidon_Round_new t nS nI nO pb0 ci (M consts) st = Inr (r, pb1)"
      and rs: "rs = rs0 @ [r]"
      by (auto simp: ebind_eq_Inr st_eq)
    from new have ok: "round_ok t nS nI nO (length st)"
      and r: "r = round_at t nS nI nO (num_variables pb0) ci (M consts) st"
      and pb1: "pb1 = grow (3 * nS) pb0"
      by (simp_all add: Poseidon_Round_new_eq_Inr)
    have lst: "min nS nI \<le> length st"
      using assms(3,4) outs by (auto simp: st_def)
    have "chain t (M consts) (chain_end (num_variables pb) (map (\<lambda>r. (nS, nI, nO, r)) rs0))
            (chain_out inputs (map (\<lambda>r. (nS, nI, nO, r)) rs0)) [(nS, nI, nO, r)]"
      using ok lst r by (simp add: chain_end_map chain_out_map pb0 st_def)
    then have "chain t (M consts) (num_variables pb) inputs (map (\<lambda>r. (nS, nI, nO, r)) rs)"
      using ch by (simp add: rs chain_append)
    moreover have "length rs = Suc n - n_begin" using len True rs by simp
    moreover have "pb1 = grow (3 * nS * length rs) pb"
      by (simp add: pb1 pb0 rs algebra_simps)
    moreover have "\<forall>r \<in> set rs. length (outputs r) = nO"
      using outs rs r by simp
    ultimately show ?thesis by simp
  qed
qed

lemma make_rounds_Inr:
  assumes "make_rounds t nS nI nO n_begin n_end pb inputs consts = Inr (rs, pb1)"
    and "min nS nI \<le> length inputs" "min nS nI \<le> nO"
  shows "chain t (M consts) (num_variables pb) inputs (map (\<lambda>r. (nS, nI, nO, r)) rs) \<and>
         length rs = n_end - n_begin \<and> pb1 = grow (3 * nS * length rs) pb \<and>
         (\<forall>r \<in> set rs. length (outputs r) = nO)"
proof (cases "n_begin \<le> n_end")
  case True
  then have "\<not> n_end < n_begin" by simp
  from make_rounds_loop[OF True assms(1)[unfolded make_rounds_def if_not_P[OF this]] assms(2,3)]
  show ?thesis .
next
  case False
  then show ?thesis using assms(1) by (simp add: make_rounds_def)
qed

lemma make_rounds_loop_ok:
  assumes "n_begin \<le> n" "n \<le> length (C consts)"
    and "round_ok t nS nI nO (length inputs)"
    and "round_ok t nS nI nO nO"
  shows "\<exists>rs pb1. foldM (\<lambda>i (result, pb').
              ebind (if i = n_begin then Inr inputs
                     else ebind (vec_back result) (\<lambda>r. Inr (outputs r))) (\<lambda>st.
              ebind (nth_err (C consts) i) (\<lambda>ci.
              ebind (Poseidon_Round_new t nS nI nO pb' ci (M consts) st) (\<lambda>(r, pb'').
              Inr (result @ [r], pb'')))))
       [n_begin ..< n] ([], pb) = Inr (rs, pb1) \<and> length rs = n - n_begin \<and>
       (\<forall>r \<in> set rs. length (outputs r) = nO)"
  using assms(1,2)
proof (induction n)
  case 0
  then show ?case by simp
next
  case (Suc n)
  show ?case
  proof (cases "n_begin \<le> n")
    case False
    then have "n_begin = Suc n" using Suc.prems(1) by simp
    then show ?thesis by simp
  next
    case True
    from Suc.IH[OF True] Suc.prems(2) obtain rs0 pb0 where
      prev: "foldM (\<lambda>i (result, pb').
              ebind (if i = n_begin then Inr inputs
                     else ebind (vec_back result) (\<lambda>r. Inr (outputs r))) (\<lambda>st.
              ebind (nth_err (C consts) i) (\<lambda>ci.
              ebind (Poseidon_Round_new t nS nI nO pb' ci (M consts) st) (\<lambda>(r, pb'').
              Inr (result @ [r], pb''))))) [n_begin ..< n] ([], pb) = Inr (rs0, pb0)"
      and len: "length rs0 = n - n_begin"
      and outs: "\<forall>r \<in> set rs0. length (outputs r) = nO"
      by auto
    define st where "st = (if rs0 = [] then inputs else outputs (last rs0))"
    have st_eq: "(if n = n_begin then Inr inputs
                  else ebind (vec_back rs0) (\<lambda>r. Inr (outputs r))) = (Inr st :: error + _)"
      using len True by (auto simp: st_def vec_back_def)
    have "length st = length inputs \<or> length st = nO"
      using outs by (auto simp: st_def)
    then have ok: "round_ok t nS nI nO (length st)"
      using assms(3,4) by auto
    define r where "r = round_at t nS nI nO (num_variables pb0) (C consts ! n) (M consts) st"
    have new: "Poseidon_Round_new t nS nI nO pb0 (C consts ! n) (M consts) st
                 = Inr (r, grow (3 * nS) pb0)"
      using ok by (simp add: Poseidon_Round_new_eq_Inr r_def)
    have ci: "nth_err (C consts) n = Inr (C consts ! n)"
      using Suc.prems(2) by (simp add: nth_err_def)
    have "length (outputs r) = nO" by (simp add: r_def)
    then show ?thesis
      using True outs len by (simp add: foldM_snoc prev st_eq ci new)
  qed
qed

lemma make_rounds_ok:
  assumes "n_end \<le> length (C consts)"
    and "round_ok t nS nI nO (length inputs)"
    and "round_ok t nS nI nO nO"
    and "n_begin \<le> n_end"
  shows "\<exists>rs pb1. make_rounds t nS nI nO n_begin n_end pb inputs consts = Inr (rs, pb1) \<and>
           length rs = n_end - n_begin \<and> (\<forall>r \<in> set rs. length (outputs r) = nO)"
  using make_rounds_loop_ok[OF assms(4) assms(1,2,3)] assms(4) by (simp add: make_rounds_def)

lemma ebind_InrE:
  assumes "ebind m f = Inr y"
  obtains x where "m = Inr x" "f x = Inr y"
  using assms by (auto simp: ebind_eq_Inr)

lemma vec_back_eq_Inr: "vec_back xs = Inr x \<longleftrightarrow> xs \<noteq> [] \<and> x = last xs"
  by (auto simp: vec_back_def)

lemma Master_init_Inr_D:
  assumes "Master_init prm consts pb ins = Inr (m, pb6)"
  obtains c0 fr pb1 pre pb2 par pb3 suf pb4 c_last lr pb5 where
    "nth_err (C consts) 0 = Inr c0"
    "Poseidon_Round_new (param_t prm) (param_t prm) (nInputs prm) (param_t prm) pb c0 (M consts) (VariableArrayT_to_lc ins) = Inr (fr, pb1)"
    "make_rounds (param_t prm) (param_t prm) (param_t prm) (param_t prm) 1 (partial_begin prm) pb1 (outputs fr) consts = Inr (pre, pb2)"
    "pre \<noteq> []"
    "make_rounds (param_t prm) (param_c prm) (param_t prm) (param_t prm) (partial_begin prm) (partial_end prm) pb2 (outputs (last pre)) consts = Inr (par, pb3)"
    "par \<noteq> []"
    "make_rounds (param_t prm) (param_t prm) (param_t prm) (param_t prm) (partial_end prm) (u32_pred (total_rounds prm)) pb3 (outputs (last par)) consts = Inr (suf, pb4)"
    "suf \<noteq> []"
    "vec_back (C consts) = Inr c_last"
    "Poseidon_Round_new (param_t prm) (param_t prm) (param_t prm) (nOutputs prm) pb4 c_last (M consts) (outputs (last suf)) = Inr (lr, pb5)"
    "m = \<lparr>constants = consts, first_round = fr, prefix_full_rounds = pre,
          partial_rounds = par, suffix_full_rounds = suf, last_round = lr,
          output_vars = (if constrainOutputs prm then fst (make_var_array pb5 (nOutputs prm)) else [])\<rparr>"
    "pb6 = (if constrainOutputs prm then snd (make_var_array pb5 (nOutputs prm)) else pb5)"
proof -
  from assms have "ebind (nth_err (C consts) 0) (\<lambda>c0. ebind (Poseidon_Round_new (param_t prm) (param_t prm) (nInputs prm) (param_t prm) pb c0 (M consts) (VariableArrayT_to_lc ins)) (\<lambda>(fr, pb1). ebind (make_rounds (param_t prm) (param_t prm) (param_t prm) (param_t prm) 1 (partial_begin prm) pb1 (outputs fr) consts) (\<lambda>(pre, pb2). ebind (vec_back pre) (\<lambda>pre_last. ebind (make_rounds (param_t prm) (param_c prm) (param_t prm) (param_t prm) (partial_begin prm) (partial_end prm) pb2 (outputs pre_last) consts) (\<lambda>(par, pb3). ebind (vec_back par) (\<lambda>par_last. ebind (make_rounds (param_t prm) (param_t prm) (param_t prm) (param_t prm) (partial_end prm) (u32_pred (total_rounds prm)) pb3 (outputs par_last) consts) (\<lambda>(suf, pb4). ebind (vec_back (C consts)) (\<lambda>c_last. ebind (vec_back suf) (\<lambda>suf_last. ebind (Poseidon_Round_new (param_t prm) (param_t prm) (param_t prm) (nOutputs prm) pb4 c_last (M consts) (outputs suf_last)) (\<lambda>(lr, pb5). (let (ovs, pb6) = (if constrainOutputs prm then make_var_array pb5 (nOutputs prm)
                           else ([], pb5))
         in (Inr (\<lparr>constants = consts, first_round = fr, prefix_full_rounds = pre,
                   partial_rounds = par, suffix_full_rounds = suf, last_round = lr,
                   output_vars = ovs\<rparr>, pb6) :: error + _)))))))))))) = Inr (m, pb6)"
    by (simp add: Master_init_def Let_def)
  then obtain c0 where c0: "nth_err (C consts) 0 = Inr c0"
    and r1: "ebind (Poseidon_Round_new (param_t prm) (param_t prm) (nInputs prm) (param_t prm) pb c0 (M consts) (VariableArrayT_to_lc ins)) (\<lambda>(fr, pb1). ebind (make_rounds (param_t prm) (param_t prm) (param_t prm) (param_t prm) 1 (partial_begin prm) pb1 (outputs fr) consts) (\<lambda>(pre, pb2). ebind (vec_back pre) (\<lambda>pre_last. ebind (make_rounds (param_t prm) (param_c prm) (param_t prm) (param_t prm) (partial_begin prm) (partial_end prm) pb2 (outputs pre_last) consts) (\<lambda>(par, pb3). ebind (vec_back par) (\<lambda>par_last. ebind (make_rounds (param_t prm) (param_t prm) (param_t prm) (param_t prm) (partial_end prm) (u32_pred (total_rounds prm)) pb3 (outputs par_last) consts) (\<lambda>(suf, pb4). ebind (vec_back (C consts)) (\<lambda>c_last. ebind (vec_back suf) (\<lambda>suf_last. ebind (Poseidon_Round_new (param_t prm) (param_t prm) (param_t prm) (nOutputs prm) pb4 c_last (M consts) (outputs suf_last)) (\<lambda>(lr, pb5). (let (ovs, pb6) = (if constrainOutputs prm then make_var_array pb5 (nOutputs prm)
                           else ([], pb5))
         in (Inr (\<lparr>constants = consts, first_round = fr, prefix_full_rounds = pre,
                   partial_rounds = par, suffix_full_rounds = suf, last_round = lr,
                   output_vars = ovs\<rparr>, pb6) :: error + _))))))))))) = Inr (m, pb6)"
    by (rule ebind_InrE)
  from r1 obtain x1 where a: "Poseidon_Round_new (param_t prm) (param_t prm) (nInputs prm) (param_t prm) pb c0 (M consts) (VariableArrayT_to_lc ins) = Inr x1"
    and b: "(\<lambda>(fr, pb1). ebind (make_rounds (param_t prm) (param_t prm) (param_t prm) (param_t prm) 1 (partial_begin prm) pb1 (outputs fr) consts) (\<lambda>(pre, pb2). ebind (vec_back pre) (\<lambda>pre_last. ebind (make_rounds (param_t prm) (param_c prm) (param_t prm) (param_t prm) (partial_begin prm) (partial_end prm) pb2 (outputs pre_last) consts) (\<lambda>(par, pb3). ebind (vec_back par) (\<lambda>par_last. ebind (make_rounds (param_t prm) (param_t prm) (param_t prm) (param_t prm) (partial_end prm) (u32_pred (total_rounds prm)) pb3 (outputs par_last) consts) (\<lambda>(suf, pb4). ebind (vec_back (C consts)) (\<lambda>c_last. ebind (vec_back suf) (\<lambda>suf_last. ebind (Poseidon_Round_new (param_t prm) (param_t prm) (param_t prm) (nOutputs prm) pb4 c_last (M consts) (outputs suf_last)) (\<lambda>(lr, pb5). (let (ovs, pb6) = (if constrainOutputs prm then make_var_array pb5 (nOutputs prm)
                           else ([], pb5))
         in (Inr (\<lparr>constants = consts, first_round = fr, prefix_full_rounds = pre,
                   partial_rounds = par, suffix_full_rounds = suf, last_round = lr,
                   output_vars = ovs\<rparr>, pb6) :: error + _))))))))))) x1 = Inr (m, pb6)"
    by (rule ebind_InrE)
  obtain fr pb1 where x1: "x1 = (fr, pb1)" by (cases x1)
  from b have "ebind (make_rounds (param_t prm) (param_t prm) (param_t prm) (param_t prm) 1 (partial_begin prm) pb1 (outputs fr) consts) (\<lambda>(pre, pb2). ebind (vec_back pre) (\<lambda>pre_last. ebind (make_rounds (param_t prm) (param_c prm) (param_t prm) (param_t prm) (partial_begin prm) (partial_end prm) pb2 (outputs pre_last) consts) (\<lambda>(par, pb3). ebind (vec_back par) (\<lambda>par_last. ebind (make_rounds (param_t prm) (param_t prm) (param_t prm) (param_t prm) (partial_end prm) (u32_pred (total_rounds prm)) pb3 (outputs par_last) consts) (\<lambda>(suf, pb4). ebind (vec_back (C consts)) (\<lambda>c_last. ebind (vec_back suf) (\<lambda>suf_last. ebind (Poseidon_Round_new (param_t prm) (param_t prm) (param_t prm) (nOutputs prm) pb4 c_last (M consts) (outputs suf_last)) (\<lambda>(lr, pb5). (let (ovs, pb6) = (if constrainOutputs prm then make_var_array pb5 (nOutputs prm)
                           else ([], pb5))
         in (Inr (\<lparr>constants = consts, first_round = fr, prefix_full_rounds = pre,
                   partial_rounds = par, suffix_full_rounds = suf, last_round = lr,
                   output_vars = ovs\<rparr>, pb6) :: error + _)))))))))) = Inr (m, pb6)" by (simp only: x1 prod.case)
  then obtain x2 where c: "make_rounds (param_t prm) (param_t prm) (param_t prm) (param_t prm) 1 (partial_begin prm) pb1 (outputs fr) consts = Inr x2"
    and d: "(\<lambda>(pre, pb2). ebind (vec_back pre) (\<lambda>pre_last. ebind (make_rounds (param_t prm) (param_c prm) (param_t prm) (param_t prm) (partial_begin prm) (partial_end prm) pb2 (outputs pre_last) consts) (\<lambda>(par, pb3). ebind (vec_back par) (\<lambda>par_last. ebind (make_rounds (param_t prm) (param_t prm) (param_t prm) (param_t prm) (partial_end prm) (u32_pred (total_rounds prm)) pb3 (outputs par_last) consts) (\<lambda>(suf, pb4). ebind (vec_back (C consts)) (\<lambda>c_last. ebind (vec_back suf) (\<lambda>suf_last. ebind (Poseidon_Round_new (param_t prm) (param_t prm) (param_t prm) (nOutputs prm) pb4 c_last (M consts) (outputs suf_last)) (\<lambda>(lr, pb5). (let (ovs, pb6) = (if constrainOutputs prm then make_var_array pb5 (nOutputs prm)
                           else ([], pb5))
         in (Inr (\<lparr>constants = consts, first_round = fr, prefix_full_rounds = pre,
                   partial_rounds = par, suffix_full_rounds = suf, last_round = lr,
                   output_vars = ovs\<rparr>, pb6) :: error + _)))))))))) x2 = Inr (m, pb6)"
    by (rule ebind_InrE)
  obtain pre pb2 where x2: "x2 = (pre, pb2)" by (cases x2)
  from d have "ebind (vec_back pre) (\<lambda>pre_last. ebind (make_rounds (param_t prm) (param_c prm) (param_t prm) (param_t prm) (partial_begin prm) (partial_end prm) pb2 (outputs pre_last) consts) (\<lambda>(par, pb3). ebind (vec_back par) (\<lambda>par_last. ebind (make_rounds (param_t prm) (param_t prm) (param_t prm) (param_t prm) (partial_end prm) (u32_pred (total_rounds prm)) pb3 (outputs par_last) consts) (\<lambda>(suf, pb4). ebind (vec_back (C consts)) (\<lambda>c_last. ebind (vec_back suf) (\<lambda>suf_last. ebind (Poseidon_Round_new (param_t prm) (param_t prm) (param_t prm) (nOutputs prm) pb4 c_last (M consts) (outputs suf_last)) (\<lambda>(lr, pb5). (let (ovs, pb6) = (if constrainOutputs prm then make_var_array pb5 (nOutputs prm)
                           else ([], pb5))
         in (Inr (\<lparr>constants = consts, first_round = fr, prefix_full_rounds = pre,
                   partial_rounds = par, suffix_full_rounds = suf, last_round = lr,
                   output_vars = ovs\<rparr>, pb6) :: error + _))))))))) = Inr (m, pb6)" by (simp only: x2 prod.case)
  then obtain pre_last where e: "vec_back pre = Inr pre_last"
    and f: "ebind (make_rounds (param_t prm) (param_c prm) (param_t prm) (param_t prm) (partial_begin prm) (partial_end prm) pb2 (outputs pre_last) consts) (\<lambda>(par, pb3). ebind (vec_back par) (\<lambda>par_last. ebind (make_rounds (param_t prm) (param_t prm) (param_t prm) (param_t prm) (partial_end prm) (u32_pred (total_rounds prm)) pb3 (outputs par_last) consts) (\<lambda>(suf, pb4). ebind (vec_back (C consts)) (\<lambda>c_last. ebind (vec_back suf) (\<lambda>suf_last. ebind (Poseidon_Round_new (param_t prm) (param_t prm) (param_t prm) (nOutputs prm) pb4 c_last (M consts) (outputs suf_last)) (\<lambda>(lr, pb5). (let (ovs, pb6) = (if constrainOutputs prm then make_var_array pb5 (nOutputs prm)
                           else ([], pb5))
         in (Inr (\<lparr>constants = consts, first_round = fr, prefix_full_rounds = pre,
                   partial_rounds = par, suffix_full_rounds = suf, last_round = lr,
                   output_vars = ovs\<rparr>, pb6) :: error + _)))))))) = Inr (m, pb6)"
    by (rule ebind_InrE)
  from e have ne1: "pre \<noteq> []" and pl: "pre_last = last pre" by (simp_all add: vec_back_eq_Inr)
  from f obtain x3 where g: "make_rounds (param_t prm) (param_c prm) (param_t prm) (param_t prm) (partial_begin prm) (partial_end prm) pb2 (outputs pre_last) consts = Inr x3"
    and h: "(\<lambda>(par, pb3). ebind (vec_back par) (\<lambda>par_last. ebind (make_rounds (param_t prm) (param_t prm) (param_t prm) (param_t prm) (partial_end prm) (u32_pred (total_rounds prm)) pb3 (outputs par_last) consts) (\<lambda>(suf, pb4). ebind (vec_back (C consts)) (\<lambda>c_last. ebind (vec_back suf) (\<lambda>suf_last. ebind (Poseidon_Round_new (param_t prm) (param_t prm) (param_t prm) (nOutputs prm) pb4 c_last (M consts) (outputs suf_last)) (\<lambda>(lr, pb5). (let (ovs, pb6) = (if constrainOutputs prm then make_var_array pb5 (nOutputs prm)
                           else ([], pb5))
         in (Inr (\<lparr>constants = consts, first_round = fr, prefix_full_rounds = pre,
                   partial_rounds = par, suffix_full_rounds = suf, last_round = lr,
                   output_vars = ovs\<rparr>, pb6) :: error + _)))))))) x3 = Inr (m, pb6)"
    by (rule ebind_InrE)
  obtain par pb3 where x3: "x3 = (par, pb3)" by (cases x3)
  from h have "ebind (vec_back par) (\<lambda>par_last. ebind (make_rounds (param_t prm) (param_t prm) (param_t prm) (param_t prm) (partial_end prm) (u32_pred (total_rounds prm)) pb3 (outputs par_last) consts) (\<lambda>(suf, pb4). ebind (vec_back (C consts)) (\<lambda>c_last. ebind (vec_back suf) (\<lambda>suf_last. ebind (Poseidon_Round_new (param_t prm) (param_t prm) (param_t prm) (nOutputs prm) pb4 c_last (M consts) (outputs suf_last)) (\<lambda>(lr, pb5). (let (ovs, pb6) = (if constrainOutputs prm then make_var_array pb5 (nOutputs prm)
                           else ([], pb5))
         in (Inr (\<lparr>constants = consts, first_round = fr, prefix_full_rounds = pre,
                   partial_rounds = par, suffix_full_rounds = suf, last_round = lr,
                   output_vars = ovs\<rparr>, pb6) :: error + _))))))) = Inr (m, pb6)" by (simp only: x3 prod.case)
  then obtain par_last where i: "vec_back par = Inr par_last"
    and j: "ebind (make_rounds (param_t prm) (param_t prm) (param_t prm) (param_t prm) (partial_end prm) (u32_pred (total_rounds prm)) pb3 (outputs par_last) consts) (\<lambda>(suf, pb4). ebind (vec_back (C consts)) (\<lambda>c_last. ebind (vec_back suf) (\<lambda>suf_last. ebind (Poseidon_Round_new (param_t prm) (param_t prm) (param_t prm) (nOutputs prm) pb4 c_last (M consts) (outputs suf_last)) (\<lambda>(lr, pb5). (let (ovs, pb6) = (if constrainOutputs prm then make_var_array pb5 (nOutputs prm)
                           else ([], pb5))
         in (Inr (\<lparr>constants = consts, first_round = fr, prefix_full_rounds = pre,
                   partial_rounds = par, suffix_full_rounds = suf, last_round = lr,
                   output_vars = ovs\<rparr>, pb6) :: error + _)))))) = Inr (m, pb6)"
    by (rule ebind_InrE)
  from i have ne2: "par \<noteq> []" and pal: "par_last = last par" by (simp_all add: vec_back_eq_Inr)
  from j obtain x4 where k: "make_rounds (param_t prm) (param_t prm) (param_t prm) (param_t prm) (partial_end prm) (u32_pred (total_rounds prm)) pb3 (outputs par_last) consts = Inr x4"
    and l: "(\<lambda>(suf, pb4). ebind (vec_back (C consts)) (\<lambda>c_last. ebind (vec_back suf) (\<lambda>suf_last. ebind (Poseidon_Round_new (param_t prm) (param_t prm) (param_t prm) (nOutputs prm) pb4 c_last (M consts) (outputs suf_last)) (\<lambda>(lr, pb5). (let (ovs, pb6) = (if constrainOutputs prm then make_var_array pb5 (nOutputs prm)
                           else ([], pb5))
         in (Inr (\<lparr>constants = consts, first_round = fr, prefix_full_rounds = pre,
                   partial_rounds = par, suffix_full_rounds = suf, last_round = lr,
                   output_vars = ovs\<rparr>, pb6) :: error + _)))))) x4 = Inr (m, pb6)"
    by (rule ebind_InrE)
  obtain suf pb4 where x4: "x4 = (suf, pb4)" by (cases x4)
  from l have "ebind (vec_back (C consts)) (\<lambda>c_last. ebind (vec_back suf) (\<lambda>suf_last. ebind (Poseidon_Round_new (param_t prm) (param_t prm) (param_t prm) (nOutputs prm) pb4 c_last (M consts) (outputs suf_last)) (\<lambda>(lr, pb5). (let (ovs, pb6) = (if constrainOutputs prm then make_var_array pb5 (nOutputs prm)
                           else ([], pb5))
         in (Inr (\<lparr>constants = consts, first_round = fr, prefix_full_rounds = pre,
                   partial_rounds = par, suffix_full_rounds = suf, last_round = lr,
                   output_vars = ovs\<rparr>, pb6) :: error + _))))) = Inr (m, pb6)" by (simp only: x4 prod.case)
  then obtain c_last where cl: "vec_back (C consts) = Inr c_last"
    and n: "ebind (vec_back suf) (\<lambda>suf_last. ebind (Poseidon_Round_new (param_t prm) (param_t prm) (param_t prm) (nOutputs prm) pb4 c_last (M consts) (outputs suf_last)) (\<lambda>(lr, pb5). (let (ovs, pb6) = (if constrainOutputs prm then make_var_array pb5 (nOutputs prm)
                           else ([], pb5))
         in (Inr (\<lparr>constants = consts, first_round = fr, prefix_full_rounds = pre,
                   partial_rounds = par, suffix_full_rounds = suf, last_round = lr,
                   output_vars = ovs\<rparr>, pb6) :: error + _)))) = Inr (m, pb6)"
    by (rule ebind_InrE)
  from n obtain suf_last where o: "vec_back suf = Inr suf_last"
    and p: "ebind (Poseidon_Round_new (param_t prm) (param_t prm) (param_t prm) (nOutputs prm) pb4 c_last (M consts) (outputs suf_last)) (\<lambda>(lr, pb5). (let (ovs, pb6) = (if constrainOutputs prm then make_var_array pb5 (nOutputs prm)
                           else ([], pb5))
         in (Inr (\<lparr>constants = consts, first_round = fr, prefix_full_rounds = pre,
                   partial_rounds = par, suffix_full_rounds = suf, last_round = lr,
                   output_vars = ovs\<rparr>, pb6) :: error + _))) = Inr (m, pb6)"
    by (rule ebind_InrE)
  from o have ne3: "suf \<noteq> []" and sl: "suf_last = last suf" by (simp_all add: vec_back_eq_Inr)
  from p obtain x5' where q: "Poseidon_Round_new (param_t prm) (param_t prm) (param_t prm) (nOutputs prm) pb4 c_last (M consts) (outputs suf_last) = Inr x5'"
    and r: "(\<lambda>(lr, pb5). (let (ovs, pb6) = (if constrainOutputs prm then make_var_array pb5 (nOutputs prm)
                           else ([], pb5))
         in (Inr (\<lparr>constants = consts, first_round = fr, prefix_full_rounds = pre,
                   partial_rounds = par, suffix_full_rounds = suf, last_round = lr,
                   output_vars = ovs\<rparr>, pb6) :: error + _))) x5' = Inr (m, pb6)"
    by (rule ebind_InrE)
  obtain lr pb5 where x5': "x5' = (lr, pb5)" by (cases x5')
  from r have fin: "(let (ovs, pb6) = (if constrainOutputs prm then make_var_array pb5 (nOutputs prm)
                           else ([], pb5))
         in (Inr (\<lparr>constants = consts, first_round = fr, prefix_full_rounds = pre,
                   partial_rounds = par, suffix_full_rounds = suf, last_round = lr,
                   output_vars = ovs\<rparr>, pb6) :: error + _)) = Inr (m, pb6)" by (simp only: x5' prod.case)
  from fin have m: "m = \<lparr>constants = consts, first_round = fr, prefix_full_rounds = pre,
          partial_rounds = par, suffix_full_rounds = suf, last_round = lr,
          output_vars = (if constrainOutputs prm then fst (make_var_array pb5 (nOutputs prm)) else [])\<rparr>"
    and pb6: "pb6 = (if constrainOutputs prm then snd (make_var_array pb5 (nOutputs prm)) else pb5)"
    by (simp_all add: split_beta split: if_splits)
  show ?thesis
    by (rule that[OF c0 a[unfolded x1] c[unfolded x2] ne1 g[unfolded x3 pl] ne2 k[unfolded x4 pal]
          ne3 cl q[unfolded x5' sl] m pb6])
qed

lemma Master_init_lengths:
  assumes "Master_init prm consts pb ins = Inr (m, pb6)"
  shows "length (prefix_full_rounds m) = partial_begin prm - 1"
    and "length (partial_rounds m) = partial_end prm - partial_begin prm"
    and "length (suffix_full_rounds m) = u32_pred (total_rounds prm) - partial_end prm"
    and "prefix_full_rounds m \<noteq> []" and "partial_rounds m \<noteq> []" and "suffix_full_rounds m \<noteq> []"
    and "length (outputs (last_round m)) = nOutputs prm"
    and "length (output_vars m) = (if constrainOutputs prm then nOutputs prm else 0)"
    and "pb_constraints pb6 = pb_constraints pb"
proof -
  from assms obtain c0 fr pb1 pre pb2 par pb3 suf pb4 c_last lr pb5 where
    fr: "Poseidon_Round_new (param_t prm) (param_t prm) (nInputs prm) (param_t prm) pb c0 (M consts)
        (VariableArrayT_to_lc ins) = Inr (fr, pb1)"
    and pre: "make_rounds (param_t prm) (param_t prm) (param_t prm) (param_t prm) 1 (partial_begin prm)
        pb1 (outputs fr) consts = Inr (pre, pb2)" "pre \<noteq> []"
    and par: "make_rounds (param_t prm) (param_c prm) (param_t prm) (param_t prm) (partial_begin prm)
        (partial_end prm) pb2 (outputs (last pre)) consts = Inr (par, pb3)" "par \<noteq> []"
    and suf: "make_rounds (param_t prm) (param_t prm) (param_t prm) (param_t prm) (partial_end prm)
        (u32_pred (total_rounds prm)) pb3 (outputs (last par)) consts = Inr (suf, pb4)" "suf \<noteq> []"
    and lr: "Poseidon_Round_new (param_t prm) (param_t prm) (param_t prm) (nOutputs prm) pb4 c_last
        (M consts) (outputs (last suf)) = Inr (lr, pb5)"
    and m: "m = \<lparr>constants = consts, first_round = fr, prefix_full_rounds = pre,
          partial_rounds = par, suffix_full_rounds = suf, last_round = lr,
          output_vars = (if constrainOutputs prm then fst (make_var_array pb5 (nOutputs prm)) else [])\<rparr>"
    and pb6: "pb6 = (if constrainOutputs prm then snd (make_var_array pb5 (nOutputs prm)) else pb5)"
    by (rule Master_init_Inr_D)
  have lfr: "length (outputs fr) = param_t prm"
    using fr by (simp add: Poseidon_Round_new_eq_Inr)
  from make_rounds_Inr[OF pre(1)] lfr have
    p1: "length pre = partial_begin prm - 1" "\<forall>r \<in> set pre. length (outputs r) = param_t prm"
      "pb2 = grow (3 * param_t prm * length pre) pb1"
    by simp_all
  then have lpre: "length (outputs (last pre)) = param_t prm" using pre(2) by simp
  from make_rounds_Inr[OF par(1)] lpre have
    p2: "length par = partial_end prm - partial_begin prm"
      "\<forall>r \<in> set par. length (outputs r) = param_t prm"
      "pb3 = grow (3 * param_c prm * length par) pb2"
    by simp_all
  then have lpar: "length (outputs (last par)) = param_t prm" using par(2) by simp
  from make_rounds_Inr[OF suf(1)] lpar have
    p3: "length suf = u32_pred (total_rounds prm) - partial_end prm"
      "pb4 = grow (3 * param_t prm * length suf) pb3"
    by simp_all
  show "length (prefix_full_rounds m) = partial_begin prm - 1"
    and "length (partial_rounds m) = partial_end prm - partial_begin prm"
    and "length (suffix_full_rounds m) = u32_pred (total_rounds prm) - partial_end prm"
    and "prefix_full_rounds m \<noteq> []" and "partial_rounds m \<noteq> []" and "suffix_full_rounds m \<noteq> []"
    using p1 p2 p3 pre par suf by (simp_all add: m)
  show "length (outputs (last_round m)) = nOutputs prm"
    using lr by (simp add: m Poseidon_Round_new_eq_Inr)
  show "length (output_vars m) = (if constrainOutputs prm then nOutputs prm else 0)"
    by (simp add: m make_var_array_def)
  have "pb_constraints pb1 = pb_constraints pb" "pb_constraints pb5 = pb_constraints pb4"
    using fr lr by (simp_all add: Poseidon_Round_new_eq_Inr)
  then show "pb_constraints pb6 = pb_constraints pb"
    by (simp add: pb6 p1 p2 p3 make_var_array_def)
qed

lemma Master_init_ok:
  assumes F: "4 \<le> param_F prm" and P: "1 \<le> param_P prm"
    and nI: "nInputs prm \<le> param_t prm" and nO: "nOutputs prm \<le> param_t prm"
    and lC: "param_F prm + param_P prm \<le> length (C consts)"
  shows "\<exists>m pb6. Master_init prm consts pb ins = Inr (m, pb6)"
proof -
  let ?t = "param_t prm"
  have Cne: "0 < length (C consts)" using F lC by linarith
  have c0: "nth_err (C consts) 0 = Inr (C consts ! 0)"
    using Cne by (simp add: nth_err_def)
  have ok1: "round_ok ?t ?t (nInputs prm) ?t (length (VariableArrayT_to_lc ins :: 'a linear_combination list))"
    using nI by (intro round_ok_suff) simp_all
  then obtain fr pb1 where
    fr: "Poseidon_Round_new ?t ?t (nInputs prm) ?t pb (C consts ! 0) (M consts)
           (VariableArrayT_to_lc ins) = Inr (fr, pb1)"
    by (simp add: Poseidon_Round_new_eq_Inr)
  then have lfr: "length (outputs fr) = ?t" by (simp add: Poseidon_Round_new_eq_Inr)
  have okf: "round_ok ?t ?t ?t ?t ?t"
    by (intro round_ok_suff) simp_all
  have pbl: "partial_begin prm \<le> length (C consts)"
    using lC by (simp add: partial_begin_def)
  have b1e: "1 \<le> partial_begin prm" using F by (simp add: partial_begin_def)
  from make_rounds_ok[OF pbl _ _ b1e, of ?t ?t ?t ?t "outputs fr" pb1] okf lfr obtain pre pb2 where
    pre: "make_rounds ?t ?t ?t ?t 1 (partial_begin prm) pb1 (outputs fr) consts = Inr (pre, pb2)"
    and lpre: "length pre = partial_begin prm - 1"
    and opre: "\<forall>r \<in> set pre. length (outputs r) = ?t"
    by auto
  have ne1: "pre \<noteq> []" using lpre F by (auto simp: partial_begin_def)
  then have llp: "length (outputs (last pre)) = ?t" using opre by simp
  have okp: "round_ok ?t (param_c prm) ?t ?t ?t"
    by (intro round_ok_suff) simp_all
  have pel: "partial_end prm \<le> length (C consts)"
    using lC by (simp add: partial_end_def partial_begin_def)
  have b2e: "partial_begin prm \<le> partial_end prm" by (simp add: partial_end_def)
  from make_rounds_ok[OF pel _ _ b2e, of ?t "param_c prm" ?t ?t "outputs (last pre)" pb2]
    okp llp obtain par pb3 where
    par: "make_rounds ?t (param_c prm) ?t ?t (partial_begin prm) (partial_end prm) pb2
            (outputs (last pre)) consts = Inr (par, pb3)"
    and lpar: "length par = partial_end prm - partial_begin prm"
    and opar: "\<forall>r \<in> set par. length (outputs r) = ?t"
    by auto
  have ne2: "par \<noteq> []" using lpar P by (auto simp: partial_end_def)
  then have llpar: "length (outputs (last par)) = ?t" using opar by simp
  have u: "u32_pred (total_rounds prm) = param_F prm + param_P prm - 1"
    using F by (simp add: u32_pred_def total_rounds_def)
  have ul: "u32_pred (total_rounds prm) \<le> length (C consts)"
    using lC u by simp
  have b3e: "partial_end prm \<le> u32_pred (total_rounds prm)"
    using F by (simp add: u partial_end_def partial_begin_def)
  from make_rounds_ok[OF ul _ _ b3e, of ?t ?t ?t ?t "outputs (last par)" pb3]
    okf llpar obtain suf pb4 where
    suf: "make_rounds ?t ?t ?t ?t (partial_end prm) (u32_pred (total_rounds prm)) pb3
            (outputs (last par)) consts = Inr (suf, pb4)"
    and lsuf: "length suf = u32_pred (total_rounds prm) - partial_end prm"
    and osuf: "\<forall>r \<in> set suf. length (outputs r) = ?t"
    by auto
  have ne3: "suf \<noteq> []"
    using lsuf F by (auto simp: u partial_end_def partial_begin_def)
  then have llsuf: "length (outputs (last suf)) = ?t" using osuf by simp
  have cl: "vec_back (C consts) = Inr (last (C consts))"
    using Cne by (simp add: vec_back_def)
  have okl: "round_ok ?t ?t ?t (nOutputs prm) (length (outputs (last suf)))"
    using nO by (intro round_ok_suff) simp_all
  then obtain lr pb5 where
    lr: "Poseidon_Round_new ?t ?t ?t (nOutputs prm) pb4 (last (C consts)) (M consts)
           (outputs (last suf)) = Inr (lr, pb5)"
    by (simp add: Poseidon_Round_new_eq_Inr)
  have b1: "vec_back pre = Inr (last pre)" "vec_back par = Inr (last par)"
    "vec_back suf = Inr (last suf)"
    using ne1 ne2 ne3 by (simp_all add: vec_back_def)
  show ?thesis
    by (simp add: Master_init_def Let_def c0 fr pre b1 par suf cl lr split_beta del: One_nat_def)
qed

lemma Master_T_Inr_D:
  assumes "Master_Poseidon_gadget_T be prm pb ins = Inr (m, pb')"
  obtains ks where
    "poseidon_params be (of_nat (param_t prm)) (of_nat (param_F prm)) (of_nat (param_P prm)) = Inr ks"
    "Master_init prm ks pb ins = Inr (m, pb')"
  using assms by (auto simp: Master_Poseidon_gadget_T_def ebind_eq_Inr)

lemma unat_of_nat32: "n < 2 ^ 32 \<Longrightarrow> unat (of_nat n :: 32 word) = n"
  by (simp add: unat_of_nat)

lemma Master_T_ok:
  fixes pb :: "'f::field protoboard"
  assumes t: "0 < param_t prm" "param_t prm < 2 ^ 31"
    and FP: "param_F prm + param_P prm < 2 ^ 32"
    and F: "4 \<le> param_F prm" and P: "1 \<le> param_P prm"
    and nI: "nInputs prm \<le> param_t prm" and nO: "nOutputs prm \<le> param_t prm"
  shows "\<exists>m pb'. Master_Poseidon_gadget_T be prm pb ins = Inr (m, pb')"
proof -
  have ut: "unat (of_nat (param_t prm) :: 32 word) = param_t prm"
    using t(2) by (simp add: unat_of_nat32)
  have "of_nat (param_F prm) + of_nat (param_P prm) = (of_nat (param_F prm + param_P prm) :: 32 word)"
    by simp
  moreover have uFP: "unat (of_nat (param_F prm + param_P prm) :: 32 word) = param_F prm + param_P prm"
    using FP by (rule unat_of_nat32)
  ultimately have u: "unat (of_nat (param_F prm) + of_nat (param_P prm) :: 32 word)
      = param_F prm + param_P prm" by simp
  then have nz: "(of_nat (param_F prm) + of_nat (param_P prm) :: 32 word) \<noteq> 0"
    using F by (metis add_is_0 not_numeral_le_zero unat_0)
  obtain ms :: "'f list" where
    pp: "poseidon_params be (of_nat (param_t prm)) (of_nat (param_F prm)) (of_nat (param_P prm))
       = Inr \<lparr>C = poseidon_constants_fill be ''poseidon_constants''
                    (of_nat (param_F prm) + of_nat (param_P prm)) [], M = ms\<rparr>"
    and lms: "length ms = param_t prm * param_t prm"
    using poseidon_params_ok[of "of_nat (param_t prm)" be "of_nat (param_F prm)" "of_nat (param_P prm)"]
      t ut by auto
  let ?ks = "\<lparr>C = poseidon_constants_fill be ''poseidon_constants''
                    (of_nat (param_F prm) + of_nat (param_P prm)) [], M = ms\<rparr>"
  have lC: "length (C ?ks) = param_F prm + param_P prm"
    using Suc_unat_minus_one[OF nz] u by (simp add: poseidon_constants_fill_length)
  have "\<exists>m pb6. Master_init prm ?ks pb ins = Inr (m, pb6)"
    using F P nI nO lC by (intro Master_init_ok) simp_all
  then show ?thesis
    by (simp add: Master_Poseidon_gadget_T_def pp)
qed

lemma Master_round_counts_aux:
  assumes "Master_init prm consts pb ins = Inr (m, pb')"
  shows "length (prefix_full_rounds m) = param_F prm div 2 - 1 \<and>
         length (partial_rounds m) = param_P prm \<and>
         length (suffix_full_rounds m) = param_F prm - param_F prm div 2 - 1 \<and>
         1 + length (prefix_full_rounds m) + length (partial_rounds m)
           + length (suffix_full_rounds m) + 1 = param_F prm + param_P prm"
proof -
  note l = Master_init_lengths[OF assms]
  have pre: "length (prefix_full_rounds m) = param_F prm div 2 - 1"
    using l(1) by (simp add: partial_begin_def)
  have F2: "2 \<le> param_F prm div 2"
    using l(4) pre by (cases "prefix_full_rounds m") auto
  then have u: "u32_pred (total_rounds prm) = param_F prm + param_P prm - 1"
    by (auto simp: u32_pred_def total_rounds_def)
  have par: "length (partial_rounds m) = param_P prm"
    using l(2) by (simp add: partial_end_def)
  have suf: "length (suffix_full_rounds m) = param_F prm - param_F prm div 2 - 1"
    using l(3) by (simp add: u partial_end_def partial_begin_def)
  have "1 \<le> length (suffix_full_rounds m)"
    using l(6) by (cases "suffix_full_rounds m") auto
  then show ?thesis using pre par suf F2 by simp
qed

lemma Master_T_checks_arity:
  assumes "Master_Poseidon_gadget_T be prm pb ins = Inr (m, pb')"
  shows "nInputs prm \<le> param_t prm \<and> nOutputs prm \<le> param_t prm"
proof -
  from assms obtain ks where mi: "Master_init prm ks pb ins = Inr (m, pb')"
    by (rule Master_T_Inr_D)
  show ?thesis
  proof (rule Master_init_Inr_D[OF mi])
    fix c0 fr pb1 pre pb2 par pb3 suf pb4 c_last lr pb5
    assume "Poseidon_Round_new (param_t prm) (param_t prm) (nInputs prm) (param_t prm) pb c0 (M ks)
        (VariableArrayT_to_lc ins) = Inr (fr, pb1)"
      and "Poseidon_Round_new (param_t prm) (param_t prm) (param_t prm) (nOutputs prm) pb4 c_last
        (M ks) (outputs (last suf)) = Inr (lr, pb5)"
    then show ?thesis
      by (simp add: Poseidon_Round_new_eq_Inr round_ok_def)
  qed
qed

lemma Poseidon128_ok:
  "\<exists>m pb'. Master_Poseidon_gadget_T example_backend (Poseidon128 1 1 True) protoboard_new [1]
              = Inr (m, pb' :: rat protoboard)"
  by (rule Master_T_ok) (simp_all add: Poseidon128_def)

text \<open>
  Claim C6, as amended.  A master that was constructed owns one first round,
  \<open>F div 2 - 1\<close> full prefix rounds, \<open>P\<close> partial rounds,
  \<open>F - F div 2 - 1\<close> full suffix rounds (that is \<open>F div 2 - 1\<close> for an even \<open>F\<close>,
  not \<open>F div 2\<close>) and one last round, \<open>F + P\<close> rounds in all.
\<close>

theorem Master_round_counts:
  assumes "Master_Poseidon_gadget_T be prm pb ins = Inr (m, pb')"
  shows "length (prefix_full_rounds m) = param_F prm div 2 - 1 \<and>
         length (partial_rounds m) = param_P prm \<and>
         length (suffix_full_rounds m) = param_F prm - param_F prm div 2 - 1 \<and>
         1 + length (prefix_full_rounds m) + length (partial_rounds m)
           + length (suffix_full_rounds m) + 1 = param_F prm + param_P prm"
proof -
  from assms obtain ks where "Master_init prm ks pb ins = Inr (m, pb')"
    by (rule Master_T_Inr_D)
  then show ?thesis by (rule Master_round_counts_aux)
qed

theorem Master_round_counts_witness:
  "\<exists>m pb'. Master_Poseidon_gadget_T example_backend (Poseidon128 1 1 True) protoboard_new [1]
              = Inr (m, pb' :: rat protoboard) \<and>
           length (prefix_full_rounds m) = 3 \<and> length (partial_rounds m) = 57 \<and>
           length (suffix_full_rounds m) = 3 \<and>
           1 + length (prefix_full_rounds m) + length (partial_rounds m)
             + length (suffix_full_rounds m) + 1 = 65"
proof -
  obtain m and pb' :: "rat protoboard" where
    eq: "Master_Poseidon_gadget_T example_backend (Poseidon128 1 1 True) protoboard_new [1]
           = Inr (m, pb')"
    using Poseidon128_ok by blast
  from Master_round_counts[OF eq] eq show ?thesis
    by (simp add: Poseidon128_def)
qed

text \<open>
  The claim as stated asks for \<open>F div 2\<close> full suffix rounds.  The master of
  \<open>Poseidon128<1, 1>\<close> (\<open>F = 8\<close>) has three of them, not four.
\<close>

theorem Master_suffix_rounds_counterexample:
  "map_sum id (\<lambda>(m, pb'). length (suffix_full_rounds m))
     (Master_Poseidon_gadget_T example_backend (Poseidon128 1 1 True) protoboard_new [1]
        :: error + rat Master_Poseidon_gadget \<times> rat protoboard) = Inr 3 \<and>
   (3 :: nat) \<noteq> param_F (Poseidon128 1 1 True) div 2"
proof -
  obtain m and pb' :: "rat protoboard" where
    eq: "Master_Poseidon_gadget_T example_backend (Poseidon128 1 1 True) protoboard_new [1]
           = Inr (m, pb')"
    using Poseidon128_ok by blast
  then obtain ks where "Master_init (Poseidon128 1 1 True) ks protoboard_new [1] = Inr (m, pb')"
    by (rule Master_T_Inr_D)
  from Master_round_counts_aux[OF this] eq show ?thesis
    by (simp add: Poseidon128_def)
qed

section \<open>The master: chain of rounds and emitted constraints\<close>

lemma chain_single:
  "chain t in_M b st [(nS, nI, nO, r)] \<longleftrightarrow>
     round_ok t nS nI nO (length st) \<and> min nS nI \<le> length st \<and>
     r = round_at t nS nI nO b (C_i r) in_M st"
  by simp

lemma Master_init_chain:
  assumes mi: "Master_init prm ks pb ins = Inr (m, pb6)"
    and len: "min (param_t prm) (nInputs prm) \<le> length ins"
  shows "chain (param_t prm) (M ks) (num_variables pb) (VariableArrayT_to_lc ins) (tagged_rounds prm m)"
    and "num_variables pb6 = chain_end (num_variables pb) (tagged_rounds prm m)
           + (if constrainOutputs prm then nOutputs prm else 0)"
    and "output_vars m = (if constrainOutputs prm
           then [chain_end (num_variables pb) (tagged_rounds prm m) + 1 ..<
                 chain_end (num_variables pb) (tagged_rounds prm m) + 1 + nOutputs prm] else [])"
    and "\<exists>n. pb6 = grow n pb"
proof -
  let ?t = "param_t prm"
  let ?F = "\<lambda>r :: 'a Poseidon_Round. (?t, ?t, ?t, r)"
  let ?P = "\<lambda>r :: 'a Poseidon_Round. (param_c prm, ?t, ?t, r)"
  from mi obtain c0 fr pb1 pre pb2 par pb3 suf pb4 c_last lr pb5 where
    fr: "Poseidon_Round_new ?t ?t (nInputs prm) ?t pb c0 (M ks) (VariableArrayT_to_lc ins) = Inr (fr, pb1)"
    and pre: "make_rounds ?t ?t ?t ?t 1 (partial_begin prm) pb1 (outputs fr) ks = Inr (pre, pb2)"
      "pre \<noteq> []"
    and par: "make_rounds ?t (param_c prm) ?t ?t (partial_begin prm) (partial_end prm) pb2
        (outputs (last pre)) ks = Inr (par, pb3)" "par \<noteq> []"
    and suf: "make_rounds ?t ?t ?t ?t (partial_end prm) (u32_pred (total_rounds prm)) pb3
        (outputs (last par)) ks = Inr (suf, pb4)" "suf \<noteq> []"
    and lr: "Poseidon_Round_new ?t ?t ?t (nOutputs prm) pb4 c_last (M ks) (outputs (last suf))
        = Inr (lr, pb5)"
    and m: "m = \<lparr>constants = ks, first_round = fr, prefix_full_rounds = pre,
          partial_rounds = par, suffix_full_rounds = suf, last_round = lr,
          output_vars = (if constrainOutputs prm then fst (make_var_array pb5 (nOutputs prm)) else [])\<rparr>"
    and pb6: "pb6 = (if constrainOutputs prm then snd (make_var_array pb5 (nOutputs prm)) else pb5)"
    by (rule Master_init_Inr_D)
  let ?b0 = "num_variables pb"
  from fr have fr_ok: "round_ok ?t ?t (nInputs prm) ?t (length ins)"
    and fr_eq: "fr = round_at ?t ?t (nInputs prm) ?t ?b0 c0 (M ks) (VariableArrayT_to_lc ins)"
    and pb1: "pb1 = grow (3 * ?t) pb"
    by (simp_all add: Poseidon_Round_new_eq_Inr VariableArrayT_to_lc_def)
  have lfr: "length (outputs fr) = ?t" by (simp add: fr_eq)
  have ch0: "chain ?t (M ks) ?b0 (VariableArrayT_to_lc ins) [(?t, nInputs prm, ?t, fr)]"
    using fr_ok len fr_eq by (simp add: VariableArrayT_to_lc_def)
  from make_rounds_Inr[OF pre(1)] lfr have
    ch1: "chain ?t (M ks) (num_variables pb1) (outputs fr) (map ?F pre)"
    and o1: "\<forall>r \<in> set pre. length (outputs r) = ?t"
    and pb2: "pb2 = grow (3 * ?t * length pre) pb1"
    by simp_all
  have lpre: "length (outputs (last pre)) = ?t" using o1 pre(2) by simp
  from make_rounds_Inr[OF par(1)] lpre have
    ch2: "chain ?t (M ks) (num_variables pb2) (outputs (last pre)) (map ?P par)"
    and o2: "\<forall>r \<in> set par. length (outputs r) = ?t"
    and pb3: "pb3 = grow (3 * param_c prm * length par) pb2"
    by simp_all
  have lpar: "length (outputs (last par)) = ?t" using o2 par(2) by simp
  from make_rounds_Inr[OF suf(1)] lpar have
    ch3: "chain ?t (M ks) (num_variables pb3) (outputs (last par)) (map ?F suf)"
    and o3: "\<forall>r \<in> set suf. length (outputs r) = ?t"
    and pb4: "pb4 = grow (3 * ?t * length suf) pb3"
    by simp_all
  have lsuf: "length (outputs (last suf)) = ?t" using o3 suf(2) by simp
  from lr have lr_ok: "round_ok ?t ?t ?t (nOutputs prm) (length (outputs (last suf)))"
    and lr_eq: "lr = round_at ?t ?t ?t (nOutputs prm) (num_variables pb4) c_last (M ks)
                  (outputs (last suf))"
    and pb5: "pb5 = grow (3 * ?t) pb4"
    by (simp_all add: Poseidon_Round_new_eq_Inr)
  have ch4: "chain ?t (M ks) (num_variables pb4) (outputs (last suf)) [(?t, ?t, nOutputs prm, lr)]"
    using lr_ok lsuf lr_eq by simp
  have e1: "chain_end (num_variables pb1) (map ?F pre) = num_variables pb2"
    by (simp add: chain_end_map pb2)
  have e2: "chain_end (num_variables pb2) (map ?P par) = num_variables pb3"
    by (simp add: chain_end_map pb3)
  have e3: "chain_end (num_variables pb3) (map ?F suf) = num_variables pb4"
    by (simp add: chain_end_map pb4)
  have c34: "chain ?t (M ks) (num_variables pb3) (outputs (last par))
               (map ?F suf @ [(?t, ?t, nOutputs prm, lr)])"
    unfolding chain_append e3 using ch3 ch4 suf(2) by (simp add: chain_out_map)
  have c234: "chain ?t (M ks) (num_variables pb2) (outputs (last pre))
               (map ?P par @ map ?F suf @ [(?t, ?t, nOutputs prm, lr)])"
    unfolding chain_append[of _ _ _ _ "map ?P par"] e2 using ch2 c34 par(2)
    by (simp add: chain_out_map)
  have c1234: "chain ?t (M ks) (num_variables pb1) (outputs fr)
               (map ?F pre @ map ?P par @ map ?F suf @ [(?t, ?t, nOutputs prm, lr)])"
    unfolding chain_append[of _ _ _ _ "map ?F pre"] e1 using ch1 c234 pre(2)
    by (simp add: chain_out_map)
  have nv1: "num_variables pb1 = ?b0 + 3 * ?t" by (simp add: pb1)
  show "chain ?t (M ks) ?b0 (VariableArrayT_to_lc ins) (tagged_rounds prm m)"
    using ch0 c1234 by (simp add: tagged_rounds_def m nv1)
  have e1': "chain_end (?b0 + 3 * ?t) (map ?F pre) = num_variables pb2"
    using e1 by (simp add: nv1)
  have ce: "chain_end ?b0 (tagged_rounds prm m) = num_variables pb5"
    by (simp add: tagged_rounds_def m chain_end_append e1' e2 e3 pb5)
  have mva: "snd (make_var_array pb5 (nOutputs prm)) = grow (nOutputs prm) pb5"
    by (simp add: make_var_array_def grow_def)
  show "num_variables pb6 = chain_end ?b0 (tagged_rounds prm m)
           + (if constrainOutputs prm then nOutputs prm else 0)"
    by (simp add: ce pb6 mva)
  show "output_vars m = (if constrainOutputs prm
           then [chain_end ?b0 (tagged_rounds prm m) + 1 ..<
                 chain_end ?b0 (tagged_rounds prm m) + 1 + nOutputs prm] else [])"
    unfolding ce by (simp add: m make_var_array_def)
  show "\<exists>n. pb6 = grow n pb"
    using mva by (auto simp: pb6 pb5 pb4 pb3 pb2 pb1)
qed

lemma emit_emit [simp]: "emit cs (emit ds pb) = emit (ds @ cs) pb"
  by (simp add: emit_def)

lemma emit_Nil [simp]: "emit [] pb = pb"
  by (simp add: emit_def)

lemma fp_generate_r1cs_constraints_emit:
  "fp_generate_r1cs_constraints g x pb = emit (sbox_constraints g x) pb"
  by (simp add: fp_generate_r1cs_constraints_def add_r1cs_constraint_def sbox_constraints_def emit_def)

lemma fold_emit: "fold (\<lambda>i. emit (h i)) is pb = emit (concat (map h is)) pb"
  by (induction "is" arbitrary: pb) simp_all

lemma foldM_total:
  "(\<And>i s. i \<in> set is \<Longrightarrow> f i s = Inr (g i s)) \<Longrightarrow> foldM f is s = Inr (fold g is s)"
  by (induction "is" arbitrary: s) simp_all

lemma round_generate_r1cs_constraints_emit:
  assumes "nS \<le> length (sboxes r)" "min nS nI \<le> length (state r)"
  shows "round_generate_r1cs_constraints nS nI r pb = Inr (emit (round_constraints nS nI r) pb)"
proof -
  have "round_generate_r1cs_constraints nS nI r pb
      = Inr (fold (\<lambda>h. emit (sbox_constraints (sboxes r ! h) (sbox_input nI r h))) [0 ..< nS] pb)"
    unfolding round_generate_r1cs_constraints_def
    using assms
    by (intro foldM_total)
      (auto simp: nth_err_def fp_generate_r1cs_constraints_emit sbox_input_def)
  then show ?thesis by (simp add: fold_emit round_constraints_def)
qed

lemma chain_round_facts:
  "chain t in_M b st xs \<Longrightarrow> (nS, nI, nO, r) \<in> set xs \<Longrightarrow>
     length (sboxes r) = nS \<and> min nS nI \<le> length (state r) \<and> length (outputs r) = nO"
proof (induction xs arbitrary: b st)
  case Nil
  then show ?case by simp
next
  case (Cons x xs)
  obtain nS' nI' nO' r' where x: "x = (nS', nI', nO', r')" by (cases x)
  show ?case
  proof (cases "(nS, nI, nO, r) = x")
    case True
    then have e: "nS' = nS" "nI' = nI" "nO' = nO" "r' = r" using x by simp_all
    from Cons.prems(1) have "min nS nI \<le> length st" and "r = round_at t nS nI nO b (C_i r) in_M st"
      by (simp_all add: x e)
    then have "min nS nI \<le> length st" "sboxes r = map (sbox_at b) [0 ..< nS]" "state r = st"
      "length (outputs r) = nO"
      by (simp_all add: round_at_def) (metis Poseidon_Round.select_convs(4) , metis Poseidon_Round.select_convs(3), metis length_outputs_round_at round_at_def)
    then show ?thesis by simp
  next
    case False
    then have "(nS, nI, nO, r) \<in> set xs" using Cons.prems(2) by simp
    moreover have "chain t in_M (b + 3 * nS') (outputs r') xs"
      using Cons.prems(1) by (simp add: x)
    ultimately show ?thesis by (rule Cons.IH[rotated])
  qed
qed

lemma rounds_generate_r1cs_constraints_emit:
  assumes "\<And>r. r \<in> set rs \<Longrightarrow> nS \<le> length (sboxes r) \<and> min nS nI \<le> length (state r)"
  shows "foldM (round_generate_r1cs_constraints nS nI) rs pb
           = Inr (emit (concat (map (round_constraints nS nI) rs)) pb)"
proof -
  have "foldM (round_generate_r1cs_constraints nS nI) rs pb
          = Inr (fold (\<lambda>r. emit (round_constraints nS nI r)) rs pb)"
    using assms by (intro foldM_total) (simp add: round_generate_r1cs_constraints_emit)
  then show ?thesis by (simp add: fold_emit)
qed

lemma output_constraints_loop_emit:
  assumes "length (outputs (last_round m)) \<le> length (output_vars m)"
  shows "output_constraints_loop m pb = Inr (emit (output_constraints m) pb)"
proof -
  have "output_constraints_loop m pb
      = Inr (fold (\<lambda>i. emit [ConstraintT (outputs (last_round m) ! i) (lc_of_var ONE)
                                (lc_of_var (output_vars m ! i))])
               [0 ..< length (outputs (last_round m))] pb)"
    unfolding output_constraints_loop_def using assms
    by (intro foldM_total) (auto simp: nth_err_def add_r1cs_constraint_def emit_def)
  also have "\<dots> = Inr (emit (concat (map (\<lambda>i. [ConstraintT (outputs (last_round m) ! i) (lc_of_var ONE)
                                (lc_of_var (output_vars m ! i))])
               [0 ..< length (outputs (last_round m))])) pb)"
    by (simp only: fold_emit)
  also have "concat (map (\<lambda>i. [ConstraintT (outputs (last_round m) ! i) (lc_of_var ONE)
                                (lc_of_var (output_vars m ! i))])
               [0 ..< length (outputs (last_round m))]) = output_constraints m"
    unfolding output_constraints_def by (induction "[0 ..< length (outputs (last_round m))]") auto
  finally show ?thesis .
qed

lemma chain_constraints_tagged:
  "chain_constraints (tagged_rounds prm m) =
     round_constraints (param_t prm) (nInputs prm) (first_round m) @
     concat (map (round_constraints (param_t prm) (param_t prm)) (prefix_full_rounds m)) @
     concat (map (round_constraints (param_c prm) (param_t prm)) (partial_rounds m)) @
     concat (map (round_constraints (param_t prm) (param_t prm)) (suffix_full_rounds m)) @
     round_constraints (param_t prm) (param_t prm) (last_round m)"
  by (simp add: chain_constraints_def tagged_rounds_def comp_def)

lemma master_generate_r1cs_constraints_emit:
  assumes ch: "chain (param_t prm) in_M b st (tagged_rounds prm m)"
    and ov: "constrainOutputs prm \<Longrightarrow> length (outputs (last_round m)) \<le> length (output_vars m)"
  shows "master_generate_r1cs_constraints prm m pb = Inr (emit (master_constraints prm m) pb)"
proof -
  let ?t = "param_t prm"
  have f: "?t \<le> length (sboxes (first_round m)) \<and> min ?t (nInputs prm) \<le> length (state (first_round m))"
    using chain_round_facts[OF ch, of ?t "nInputs prm" ?t "first_round m"]
    by (simp add: tagged_rounds_def)
  have p: "?t \<le> length (sboxes r) \<and> min ?t ?t \<le> length (state r)"
    if "r \<in> set (prefix_full_rounds m) \<or> r \<in> set (suffix_full_rounds m)" for r
    using chain_round_facts[OF ch, of ?t ?t ?t r] that
    by (auto simp: tagged_rounds_def)
  have q: "param_c prm \<le> length (sboxes r) \<and> min (param_c prm) ?t \<le> length (state r)"
    if "r \<in> set (partial_rounds m)" for r
    using chain_round_facts[OF ch, of "param_c prm" ?t ?t r] that
    by (auto simp: tagged_rounds_def)
  have l: "?t \<le> length (sboxes (last_round m)) \<and> min ?t ?t \<le> length (state (last_round m))"
    using chain_round_facts[OF ch, of ?t ?t "nOutputs prm" "last_round m"]
    by (simp add: tagged_rounds_def)
  have pre: "foldM (round_generate_r1cs_constraints ?t ?t) (prefix_full_rounds m) pb'
      = Inr (emit (concat (map (round_constraints ?t ?t) (prefix_full_rounds m))) pb')" for pb'
    by (rule rounds_generate_r1cs_constraints_emit) (use p in blast)
  have suf: "foldM (round_generate_r1cs_constraints ?t ?t) (suffix_full_rounds m) pb'
      = Inr (emit (concat (map (round_constraints ?t ?t) (suffix_full_rounds m))) pb')" for pb'
    by (rule rounds_generate_r1cs_constraints_emit) (use p in blast)
  have par: "foldM (round_generate_r1cs_constraints (param_c prm) ?t) (partial_rounds m) pb'
      = Inr (emit (concat (map (round_constraints (param_c prm) ?t) (partial_rounds m))) pb')" for pb'
    by (rule rounds_generate_r1cs_constraints_emit) (use q in blast)
  have fst: "round_generate_r1cs_constraints ?t (nInputs prm) (first_round m) pb'
      = Inr (emit (round_constraints ?t (nInputs prm) (first_round m)) pb')" for pb'
    using f by (intro round_generate_r1cs_constraints_emit) simp_all
  have lst: "round_generate_r1cs_constraints ?t ?t (last_round m) pb'
      = Inr (emit (round_constraints ?t ?t (last_round m)) pb')" for pb'
    using l by (intro round_generate_r1cs_constraints_emit) simp_all
  show ?thesis
    using ov
    by (simp add: master_generate_r1cs_constraints_def Let_def fst pre par suf lst
        output_constraints_loop_emit master_constraints_def chain_constraints_tagged)
qed

lemma length_round_constraints [simp]: "length (round_constraints nS nI r) = 3 * nS"
  by (simp add: round_constraints_def length_concat comp_def sbox_constraints_def sum_list_triv)

lemma foldM_measure:
  assumes "\<And>i s s'. i \<in> set is \<Longrightarrow> f i s = Inr s' \<Longrightarrow> \<mu> s' = \<mu> s + (k :: nat)"
    and "foldM f is s = Inr s'"
  shows "\<mu> s' = \<mu> s + k * length is"
  using assms
proof (induction "is" arbitrary: s)
  case Nil
  then show ?case by simp
next
  case (Cons i "is")
  from Cons.prems(2) obtain s1 where s1: "f i s = Inr s1" and rest: "foldM f is s1 = Inr s'"
    by (auto split: sum.splits)
  have "\<mu> s1 = \<mu> s + k" using Cons.prems(1)[OF _ s1] by simp
  moreover have "\<mu> s' = \<mu> s1 + k * length is"
  proof (rule Cons.IH[OF _ rest])
    fix j t t'
    assume "j \<in> set is" "f j t = Inr t'"
    then show "\<mu> t' = \<mu> t + k" using Cons.prems(1)[of j t t'] by simp
  qed
  ultimately show ?case by simp
qed

lemma round_constraints_count:
  assumes "round_generate_r1cs_constraints nS nI r pb = Inr pb'"
  shows "length (pb_constraints pb') = length (pb_constraints pb) + 3 * nS"
proof -
  have "length (pb_constraints pb') = length (pb_constraints pb) + 3 * length [0 ..< nS]"
  proof (rule foldM_measure[where \<mu> = "\<lambda>pb. length (pb_constraints pb)",
        OF _ assms[unfolded round_generate_r1cs_constraints_def]])
    fix h s s'
    assume "ebind (nth_err (sboxes r) h) (\<lambda>g.
              if h < nI
              then ebind (nth_err (state r) h) (\<lambda>st.
                   Inr (fp_generate_r1cs_constraints g (lc_plus st (lc_of_field (C_i r))) s))
              else Inr (fp_generate_r1cs_constraints g (lc_of_field (C_i r)) s)) = Inr s'"
    then show "length (pb_constraints s') = length (pb_constraints s) + 3"
      by (auto simp: ebind_eq_Inr fp_generate_r1cs_constraints_emit emit_def sbox_constraints_def
          split: if_splits)
  qed
  then show ?thesis by simp
qed

lemma rounds_constraints_count:
  assumes "foldM (round_generate_r1cs_constraints nS nI) rs pb = Inr pb'"
  shows "length (pb_constraints pb') = length (pb_constraints pb) + 3 * nS * length rs"
  by (rule foldM_measure[where \<mu> = "\<lambda>pb. length (pb_constraints pb)", OF _ assms])
    (rule round_constraints_count)

lemma output_constraints_count:
  assumes "output_constraints_loop m pb = Inr pb'"
  shows "length (pb_constraints pb') = length (pb_constraints pb) + length (outputs (last_round m))"
proof -
  have "length (pb_constraints pb') = length (pb_constraints pb)
          + 1 * length [0 ..< length (outputs (last_round m))]"
    by (rule foldM_measure[where \<mu> = "\<lambda>pb. length (pb_constraints pb)",
          OF _ assms[unfolded output_constraints_loop_def]])
      (auto simp: ebind_eq_Inr add_r1cs_constraint_def)
  then show ?thesis by simp
qed

lemma master_constraints_count:
  assumes "master_generate_r1cs_constraints prm m pb = Inr pb'"
  shows "length (pb_constraints pb') = length (pb_constraints pb)
           + 3 * param_t prm * (2 + length (prefix_full_rounds m) + length (suffix_full_rounds m))
           + 3 * param_c prm * length (partial_rounds m)
           + (if constrainOutputs prm then length (outputs (last_round m)) else 0)"
proof -
  from assms obtain pb1 pb2 pb3 pb4 pb5 where
    a: "round_generate_r1cs_constraints (param_t prm) (nInputs prm) (first_round m) pb = Inr pb1"
    and b: "foldM (round_generate_r1cs_constraints (param_t prm) (param_t prm)) (prefix_full_rounds m) pb1 = Inr pb2"
    and c: "foldM (round_generate_r1cs_constraints (param_c prm) (param_t prm)) (partial_rounds m) pb2 = Inr pb3"
    and d: "foldM (round_generate_r1cs_constraints (param_t prm) (param_t prm)) (suffix_full_rounds m) pb3 = Inr pb4"
    and e: "round_generate_r1cs_constraints (param_t prm) (param_t prm) (last_round m) pb4 = Inr pb5"
    and f: "(if constrainOutputs prm then output_constraints_loop m pb5 else Inr pb5) = Inr pb'"
    by (auto simp: master_generate_r1cs_constraints_def Let_def ebind_eq_Inr)
  have g: "length (pb_constraints pb') = length (pb_constraints pb5)
             + (if constrainOutputs prm then length (outputs (last_round m)) else 0)"
    using f output_constraints_count[of m pb5 pb'] by (auto split: if_splits)
  show ?thesis
    unfolding g round_constraints_count[OF e] rounds_constraints_count[OF d]
      rounds_constraints_count[OF c] rounds_constraints_count[OF b] round_constraints_count[OF a]
    by (simp add: algebra_simps)
qed

lemma master_generate_r1cs_constraints_ok:
  assumes mi: "Master_init prm ks pb ins = Inr (m, pb1)"
    and len: "min (param_t prm) (nInputs prm) \<le> length ins"
  shows "master_generate_r1cs_constraints prm m pb2 = Inr (emit (master_constraints prm m) pb2)"
proof (rule master_generate_r1cs_constraints_emit)
  show "chain (param_t prm) (M ks) (num_variables pb) (VariableArrayT_to_lc ins) (tagged_rounds prm m)"
    using mi len by (rule Master_init_chain)
  show "length (outputs (last_round m)) \<le> length (output_vars m)" if "constrainOutputs prm"
    using Master_init_lengths(7,8)[OF mi] that by simp
qed

lemma master_constraints_total:
  assumes "Master_Poseidon_gadget_T be prm pb ins = Inr (m, pb1)"
    and "master_generate_r1cs_constraints prm m pb1 = Inr pb2"
    and "constrainOutputs prm"
  shows "length (pb_constraints pb2)
           = length (pb_constraints pb)
             + (3 * (param_t prm * param_F prm + param_c prm * param_P prm) + nOutputs prm)"
proof -
  from assms(1) obtain ks where mi: "Master_init prm ks pb ins = Inr (m, pb1)"
    by (rule Master_T_Inr_D)
  from Master_round_counts_aux[OF mi] have
    par: "length (partial_rounds m) = param_P prm"
    and tot: "1 + length (prefix_full_rounds m) + length (partial_rounds m)
           + length (suffix_full_rounds m) + 1 = param_F prm + param_P prm"
    by blast+
  from tot have full: "2 + length (prefix_full_rounds m) + length (suffix_full_rounds m) = param_F prm"
    unfolding par by linarith
  have out: "length (outputs (last_round m)) = nOutputs prm"
    and same: "pb_constraints pb1 = pb_constraints pb"
    using Master_init_lengths(7,9)[OF mi] by simp_all
  show ?thesis
    unfolding master_constraints_count[OF assms(2)] full par out same
    using assms(3) by (simp add: algebra_simps)
qed

text \<open>
  Claim C2.  With \<open>constrain_outputs\<close>, the constraints that the master's
  \<open>generate_r1cs_constraints\<close> emits are \<open>3 * (t * F + c * P) + nOutputs\<close> many.
  For \<open>Poseidon128<1, 1>\<close> that is 316.
\<close>

theorem master_constraint_count:
  assumes "Master_Poseidon_gadget_T be prm pb ins = Inr (m, pb1)"
    and "master_generate_r1cs_constraints prm m pb1 = Inr pb2"
    and "constrainOutputs prm"
  shows "length (pb_constraints pb2)
           = length (pb_constraints pb)
             + (3 * (param_t prm * param_F prm + param_c prm * param_P prm) + nOutputs prm)"
  using assms by (rule master_constraints_total)

theorem master_constraint_count_witness:
  "\<exists>m pb1 pb2.
     Master_Poseidon_gadget_T example_backend (Poseidon128 1 1 True) protoboard_new [1]
       = Inr (m, pb1 :: rat protoboard) \<and>
     master_generate_r1cs_constraints (Poseidon128 1 1 True) m pb1 = Inr pb2 \<and>
     length (pb_constraints pb2) = 316"
proof -
  let ?prm = "Poseidon128 1 1 True"
  obtain m and pb1 :: "rat protoboard" where
    eq: "Master_Poseidon_gadget_T example_backend ?prm protoboard_new [1] = Inr (m, pb1)"
    using Poseidon128_ok by blast
  then obtain ks where mi: "Master_init ?prm ks protoboard_new [1] = Inr (m, pb1)"
    by (rule Master_T_Inr_D)
  have gen: "master_generate_r1cs_constraints ?prm m pb1 = Inr (emit (master_constraints ?prm m) pb1)"
    by (rule master_generate_r1cs_constraints_ok[OF mi]) (simp add: Poseidon128_def)
  have co: "constrainOutputs ?prm" by (simp add: Poseidon128_def)
  from master_constraint_count[OF eq gen co]
  have "length (pb_constraints (emit (master_constraints ?prm m) pb1)) = 316"
    by (simp add: Poseidon128_def protoboard_new_def)
  with eq gen show ?thesis by blast
qed

section \<open>The backend with distinct constants\<close>

text \<open>
  Constant \<open>i\<close> of \<open>distinct_backend\<close> is \<open>113 + i\<close>, so the differences that the
  matrix generator inverts are not \<open>0\<close>.
\<close>

lemma distinct_output_size: "output_size distinct_backend = 32"
  by (simp add: output_size_def distinct_backend_def)

lemma distinct_hash_iter:
  "((blake2b distinct_backend 32) ^^ Suc i) (b # bs) = (b + of_nat (Suc i)) # replicate 31 0"
proof (induction i)
  case 0
  then show ?case by (simp add: distinct_backend_def)
next
  case (Suc i)
  have "((blake2b distinct_backend 32) ^^ Suc (Suc i)) (b # bs) = blake2b distinct_backend 32 (((blake2b distinct_backend 32) ^^ Suc i) (b # bs))"
    by simp
  also have "\<dots> = blake2b distinct_backend 32 ((b + of_nat (Suc i)) # replicate 31 0)"
    by (simp only: Suc.IH)
  also have "\<dots> = (b + of_nat (Suc (Suc i))) # replicate 31 0"
    by (simp add: distinct_backend_def add.assoc)
  finally show ?case .
qed

lemma le_nat_zeros: "le_nat (replicate n 0) = 0"
  by (induction n) simp_all

lemma seed_head:
  "bytes_of_string ''poseidon_matrix_0000'' = 112 # bytes_of_string ''oseidon_matrix_0000''"
  by (simp add: bytes_of_string_def)

lemma distinct_matrix_constant:
  assumes "i \<le> unat (n - 1)" and "i < 143"
  shows "poseidon_constants distinct_backend ''poseidon_matrix_0000'' n ! i = (of_nat (113 + i) :: 'f::field)"
proof -
  have "(112 :: 8 word) + of_nat (Suc i) = of_nat (113 + i)" by simp
  moreover have "unat (of_nat (113 + i) :: 8 word) = 113 + i"
  proof -
    have "unat (of_nat (113 + i) :: 8 word) = (113 + i) mod 2 ^ LENGTH(8)" by (rule unat_of_nat)
    also have "\<dots> = 113 + i" using assms(2) by simp
    finally show ?thesis .
  qed
  ultimately have u: "unat ((112 :: 8 word) + of_nat (Suc i)) = 113 + i" by simp
  have "113 + i < modulus distinct_backend" using assms(2) by (simp add: distinct_backend_def)
  then have m: "(113 + i) mod modulus distinct_backend = 113 + i" by simp
  show ?thesis
    unfolding poseidon_constants_nth[OF assms(1)] distinct_output_size seed_head distinct_hash_iter
      bytes_to_FieldT_littleendian_def le_nat.simps le_nat_zeros u
    by (simp add: m)
qed

lemma distinct_matrix_nonzero:
  fixes ks :: "'f::field_char_0 PoseidonConstants"
  assumes pp: "poseidon_params distinct_backend (of_nat t) pF pP = Inr ks" and t: "0 < t" "t \<le> 64"
  shows "0 \<notin> set (M ks)"
proof
  assume z: "0 \<in> set (M ks)"
  let ?t = "of_nat t :: 32 word"
  have ut: "unat ?t = t" using t by (simp add: unat_of_nat32)
  have pos: "0 < unat ?t" and small: "unat ?t < 2 ^ 31" using t by (simp_all add: ut)
  from poseidon_matrix_ok[OF pos small, of distinct_backend "''poseidon_matrix_0000''"]
  obtain ms :: "'f list" where
    pm: "poseidon_matrix distinct_backend ''poseidon_matrix_0000'' ?t = Inr ms"
    and len: "length ms = t * t"
    and nth: "\<forall>i < t. \<forall>j < t. ms ! (i * t + j)
                = inverse (poseidon_constants distinct_backend ''poseidon_matrix_0000'' (?t * 2) ! i
                           - poseidon_constants distinct_backend ''poseidon_matrix_0000'' (?t * 2) ! (t + j))"
    unfolding ut by blast
  have M: "M ks = ms"
    using pp pm by (auto simp: poseidon_params_def poseidon_matrix_def Let_def ebind_eq_Inr)
  from z obtain k where k: "k < t * t" and zk: "ms ! k = 0"
    unfolding M in_set_conv_nth len by auto
  define i j where "i = k div t" and "j = k mod t"
  have i: "i < t" using k t(1) unfolding i_def by (simp add: less_mult_imp_div_less mult.commute)
  have j: "j < t" using t(1) by (simp add: j_def)
  have kij: "k = i * t + j" by (simp add: i_def j_def)
  have u2: "unat (?t * 2 - 1) = 2 * t - 1"
  proof -
    have "unat (?t * 2) = 2 * t" using unat_double[OF small] by (simp add: ut)
    moreover have "?t * 2 \<noteq> 0" using calculation t(1) by (metis mult_is_0 not_less0 unat_0 zero_neq_numeral less_numeral_extra(3))
    ultimately show ?thesis using Suc_unat_minus_one[of "?t * 2"] by simp
  qed
  have ci: "poseidon_constants distinct_backend ''poseidon_matrix_0000'' (?t * 2) ! i = (of_nat (113 + i) :: 'f)"
    using i t by (intro distinct_matrix_constant) (simp_all add: u2)
  have cj: "poseidon_constants distinct_backend ''poseidon_matrix_0000'' (?t * 2) ! (t + j) = (of_nat (113 + (t + j)) :: 'f)"
    using j t by (intro distinct_matrix_constant) (simp_all add: u2)
  from nth i j have "ms ! k = inverse ((of_nat (113 + i) :: 'f) - of_nat (113 + (t + j)))"
    by (simp only: kij ci cj)
  with zk have "(of_nat (113 + i) :: 'f) = of_nat (113 + (t + j))" by simp
  then have "113 + i = 113 + (t + j)" by (simp only: of_nat_eq_iff)
  then show False using i by simp
qed

section \<open>What the constructor of the master checks\<close>

lemma poseidon_params_total:
  fixes pt pF pP :: "32 word"
  assumes "unat pt < 2 ^ 31"
  shows "\<exists>ms :: 'f::field list.
           poseidon_params be pt pF pP
             = Inr \<lparr>C = poseidon_constants_fill be ''poseidon_constants'' (pF + pP) [], M = ms\<rparr>"
proof (cases "pt = 0")
  case True
  then show ?thesis by (simp add: poseidon_params_def poseidon_matrix_fill_def Let_def)
next
  case False
  then have "0 < unat pt" by (simp add: unat_gt_0)
  from poseidon_params_ok[OF this assms, of be pF pP] show ?thesis by blast
qed

lemma poseidon_params_C:
  assumes "poseidon_params be pt pF pP = Inr ks"
  shows "C ks = poseidon_constants_fill be ''poseidon_constants'' (pF + pP) []"
  using assms by (auto simp: poseidon_params_def Let_def ebind_eq_Inr)

lemma poseidon_params_C_length:
  assumes "poseidon_params be (of_nat t) (of_nat F) (of_nat P) = Inr ks"
  shows "0 < length (C ks)" and "0 < F + P \<Longrightarrow> F + P < 2 ^ 32 \<Longrightarrow> length (C ks) = F + P"
proof -
  note c = poseidon_params_C[OF assms]
  show "0 < length (C ks)" by (simp add: c poseidon_constants_fill_length)
  assume pos: "0 < F + P" and FP: "F + P < 2 ^ 32"
  have "of_nat F + of_nat P = (of_nat (F + P) :: 32 word)" by simp
  moreover have uFP: "unat (of_nat (F + P) :: 32 word) = F + P"
    using FP by (rule unat_of_nat32)
  ultimately have u: "unat (of_nat F + of_nat P :: 32 word) = F + P" by simp
  then have nz: "(of_nat F + of_nat P :: 32 word) \<noteq> 0"
    using pos by (metis less_numeral_extra(3) unat_0)
  show "length (C ks) = F + P"
    using Suc_unat_minus_one[OF nz] u by (simp add: c poseidon_constants_fill_length)
qed

text \<open>
  The member initialisers of the master up to the last round: with \<open>F \<ge> 4\<close>,
  \<open>P \<ge> 1\<close> and \<open>nInputs \<le> t\<close> every round before the last one is built,
  whatever \<open>c\<close> and the parity of \<open>F\<close> are.
\<close>

lemma Master_init_last:
  assumes F: "4 \<le> param_F prm" and P: "1 \<le> param_P prm"
    and nI: "nInputs prm \<le> param_t prm"
    and lC: "param_F prm + param_P prm \<le> length (C consts)"
  shows "\<exists>fr pre par suf pb4.
           length (outputs (last suf)) = param_t prm \<and>
           Master_init prm consts pb ins
             = ebind (Poseidon_Round_new (param_t prm) (param_t prm) (param_t prm) (nOutputs prm) pb4
                        (last (C consts)) (M consts) (outputs (last suf))) (\<lambda>(lr, pb5).
                 let (ovs, pb6) = (if constrainOutputs prm then make_var_array pb5 (nOutputs prm)
                                   else ([], pb5))
                 in Inr (\<lparr>constants = consts, first_round = fr, prefix_full_rounds = pre,
                           partial_rounds = par, suffix_full_rounds = suf, last_round = lr,
                           output_vars = ovs\<rparr>, pb6))"
proof -
  let ?t = "param_t prm"
  have Cne: "0 < length (C consts)" using F lC by linarith
  have c0: "nth_err (C consts) 0 = Inr (C consts ! 0)"
    using Cne by (simp add: nth_err_def)
  have ok1: "round_ok ?t ?t (nInputs prm) ?t (length (VariableArrayT_to_lc ins :: 'a linear_combination list))"
    using nI by (intro round_ok_suff) simp_all
  then obtain fr pb1 where
    fr: "Poseidon_Round_new ?t ?t (nInputs prm) ?t pb (C consts ! 0) (M consts)
           (VariableArrayT_to_lc ins) = Inr (fr, pb1)"
    by (simp add: Poseidon_Round_new_eq_Inr)
  then have lfr: "length (outputs fr) = ?t" by (simp add: Poseidon_Round_new_eq_Inr)
  have okf: "round_ok ?t ?t ?t ?t ?t"
    by (intro round_ok_suff) simp_all
  have pbl: "partial_begin prm \<le> length (C consts)"
    using lC by (simp add: partial_begin_def)
  have b1e: "1 \<le> partial_begin prm" using F by (simp add: partial_begin_def)
  from make_rounds_ok[OF pbl _ _ b1e, of ?t ?t ?t ?t "outputs fr" pb1] okf lfr obtain pre pb2 where
    pre: "make_rounds ?t ?t ?t ?t 1 (partial_begin prm) pb1 (outputs fr) consts = Inr (pre, pb2)"
    and lpre: "length pre = partial_begin prm - 1"
    and opre: "\<forall>r \<in> set pre. length (outputs r) = ?t"
    by auto
  have ne1: "pre \<noteq> []" using lpre F by (auto simp: partial_begin_def)
  then have llp: "length (outputs (last pre)) = ?t" using opre by simp
  have okp: "round_ok ?t (param_c prm) ?t ?t ?t"
    by (intro round_ok_suff) simp_all
  have pel: "partial_end prm \<le> length (C consts)"
    using lC by (simp add: partial_end_def partial_begin_def)
  have b2e: "partial_begin prm \<le> partial_end prm" by (simp add: partial_end_def)
  from make_rounds_ok[OF pel _ _ b2e, of ?t "param_c prm" ?t ?t "outputs (last pre)" pb2]
    okp llp obtain par pb3 where
    par: "make_rounds ?t (param_c prm) ?t ?t (partial_begin prm) (partial_end prm) pb2
            (outputs (last pre)) consts = Inr (par, pb3)"
    and lpar: "length par = partial_end prm - partial_begin prm"
    and opar: "\<forall>r \<in> set par. length (outputs r) = ?t"
    by auto
  have ne2: "par \<noteq> []" using lpar P by (auto simp: partial_end_def)
  then have llpar: "length (outputs (last par)) = ?t" using opar by simp
  have u: "u32_pred (total_rounds prm) = param_F prm + param_P prm - 1"
    using F by (simp add: u32_pred_def total_rounds_def)
  have ul: "u32_pred (total_rounds prm) \<le> length (C consts)"
    using lC u by simp
  have b3e: "partial_end prm \<le> u32_pred (total_rounds prm)"
    using F by (simp add: u partial_end_def partial_begin_def)
  from make_rounds_ok[OF ul _ _ b3e, of ?t ?t ?t ?t "outputs (last par)" pb3]
    okf llpar obtain suf pb4 where
    suf: "make_rounds ?t ?t ?t ?t (partial_end prm) (u32_pred (total_rounds prm)) pb3
            (outputs (last par)) consts = Inr (suf, pb4)"
    and lsuf: "length suf = u32_pred (total_rounds prm) - partial_end prm"
    and osuf: "\<forall>r \<in> set suf. length (outputs r) = ?t"
    by auto
  have ne3: "suf \<noteq> []"
    using lsuf F by (auto simp: u partial_end_def partial_begin_def)
  then have llsuf: "length (outputs (last suf)) = ?t" using osuf by simp
  have cl: "vec_back (C consts) = Inr (last (C consts))"
    using Cne by (simp add: vec_back_def)
  have b1: "vec_back pre = Inr (last pre)" "vec_back par = Inr (last par)"
    "vec_back suf = Inr (last suf)"
    using ne1 ne2 ne3 by (simp_all add: vec_back_def)
  have eq: "Master_init prm consts pb ins
             = ebind (Poseidon_Round_new ?t ?t ?t (nOutputs prm) pb4
                        (last (C consts)) (M consts) (outputs (last suf))) (\<lambda>(lr, pb5).
                 let (ovs, pb6) = (if constrainOutputs prm then make_var_array pb5 (nOutputs prm)
                                   else ([], pb5))
                 in Inr (\<lparr>constants = consts, first_round = fr, prefix_full_rounds = pre,
                           partial_rounds = par, suffix_full_rounds = suf, last_round = lr,
                           output_vars = ovs\<rparr>, pb6))"
    by (simp only: Master_init_def Let_def c0 ebind_Inr fr prod.case pre b1 par suf cl)
  show ?thesis
    by (intro exI conjI) (rule llsuf, rule eq)
qed

lemma Master_init_nInputs_fails:
  assumes "param_t prm < nInputs prm" and "nInputs prm \<le> length ins" and "0 < length (C consts)"
  shows "Master_init prm consts pb ins = Inl (AssertFailed ''nInputs <= param_t'')"
proof -
  let ?t = "param_t prm"
  have c0: "nth_err (C consts) 0 = Inr (C consts ! 0)"
    using assms(3) by (simp add: nth_err_def)
  have rng: "0 < ?t \<longrightarrow> (\<forall>k. ?t \<le> k \<and> k < nInputs prm
                \<longrightarrow> k < length (VariableArrayT_to_lc ins :: 'a linear_combination list))"
    using assms(2) by (simp add: VariableArrayT_to_lc_def)
  have n: "\<not> nInputs prm \<le> ?t" using assms(1) by simp
  have "Poseidon_Round_new ?t ?t (nInputs prm) ?t pb (C consts ! 0) (M consts)
           (VariableArrayT_to_lc ins) = Inl (AssertFailed ''nInputs <= param_t'')"
    by (rule Poseidon_Round_new_cases(2)[OF rng n])
  then show ?thesis
    by (simp only: Master_init_def Let_def c0 ebind_Inr ebind_Inl)
qed

lemma Master_init_nOutputs_fails:
  assumes F: "4 \<le> param_F prm" and P: "1 \<le> param_P prm"
    and nI: "nInputs prm \<le> param_t prm"
    and lC: "param_F prm + param_P prm \<le> length (C consts)"
    and nO: "param_t prm < nOutputs prm"
  shows "Master_init prm consts pb ins = Inl (AssertFailed ''nOutputs <= param_t'')"
proof -
  let ?t = "param_t prm"
  from Master_init_last[OF F P nI lC, of pb ins] obtain fr pre par suf pb4 where
    eq: "Master_init prm consts pb ins
             = ebind (Poseidon_Round_new ?t ?t ?t (nOutputs prm) pb4
                        (last (C consts)) (M consts) (outputs (last suf))) (\<lambda>(lr, pb5).
                 let (ovs, pb6) = (if constrainOutputs prm then make_var_array pb5 (nOutputs prm)
                                   else ([], pb5))
                 in Inr (\<lparr>constants = consts, first_round = fr, prefix_full_rounds = pre,
                           partial_rounds = par, suffix_full_rounds = suf, last_round = lr,
                           output_vars = ovs\<rparr>, pb6))"
    by blast
  have rng: "0 < nOutputs prm \<longrightarrow> (\<forall>k. ?t \<le> k \<and> k < ?t \<longrightarrow> k < length (outputs (last suf)))"
    by simp
  have n: "\<not> nOutputs prm \<le> ?t" using nO by simp
  have "Poseidon_Round_new ?t ?t ?t (nOutputs prm) pb4 (last (C consts)) (M consts)
          (outputs (last suf)) = Inl (AssertFailed ''nOutputs <= param_t'')"
    by (rule Poseidon_Round_new_cases(3)[OF rng order_refl n])
  then show ?thesis by (simp only: eq ebind_Inl)
qed

lemma master_num_variables:
  assumes mi: "Master_init prm ks pb ins = Inr (m, pb1)"
    and len: "min (param_t prm) (nInputs prm) \<le> length ins"
  shows "num_variables pb1 = num_variables pb
           + 3 * (param_t prm * param_F prm + param_c prm * param_P prm)
           + (if constrainOutputs prm then nOutputs prm else 0)"
proof -
  from Master_round_counts_aux[OF mi] have
    par: "length (partial_rounds m) = param_P prm"
    and tot: "1 + length (prefix_full_rounds m) + length (partial_rounds m)
           + length (suffix_full_rounds m) + 1 = param_F prm + param_P prm"
    by blast+
  from tot have full: "length (prefix_full_rounds m) + length (suffix_full_rounds m) + 2 = param_F prm"
    unfolding par by linarith
  have "chain_end (num_variables pb) (tagged_rounds prm m)
      = num_variables pb + 3 * (param_t prm * (length (prefix_full_rounds m) + length (suffix_full_rounds m) + 2)
                  + param_c prm * length (partial_rounds m))"
    by (simp add: tagged_rounds_def chain_end_append chain_end_map algebra_simps)
  then show ?thesis
    unfolding Master_init_chain(2)[OF mi len] full par by simp
qed

text \<open>
  Claim C9, as amended.  Let the constants be derived.  With \<open>nInputs > t\<close>,
  and an array of at least \<open>nInputs\<close> inputs, the constructor of the master ends
  in the failed assertion \<^verbatim>\<open>nInputs <= param_t\<close> of its first round; with
  \<open>nInputs \<le> t\<close>, \<open>nOutputs > t\<close>, \<open>F \<ge> 4\<close>, \<open>P \<ge> 1\<close> and \<open>F + P < 2 ^ 32\<close> it ends in
  the failed assertion \<^verbatim>\<open>nOutputs <= param_t\<close> of its last round.  The outputs of a
  round are computed before its assertions are checked, by reads past the end
  of the matrix.  No master with \<open>nInputs > t\<close> or \<open>nOutputs > t\<close> is ever
  constructed, so these failures come with the constructor, before any
  witness is generated.  Nothing checks the parity of \<open>F\<close> or compares \<open>c\<close> with
  \<open>t\<close>: with \<open>nInputs\<close> and \<open>nOutputs\<close> at most \<open>t\<close>, \<open>F \<ge> 4\<close>, \<open>P \<ge> 1\<close> and
  \<open>F + P < 2 ^ 32\<close> the master is constructed.
\<close>

theorem construction_checks:
  fixes pb :: "'f::field protoboard"
  assumes "poseidon_params be (of_nat (param_t prm)) (of_nat (param_F prm)) (of_nat (param_P prm))
             = Inr (ks :: 'f PoseidonConstants)"
  shows
  "(param_t prm < nInputs prm \<and> nInputs prm \<le> length ins \<longrightarrow>
      Master_Poseidon_gadget_T be prm pb ins = Inl (AssertFailed ''nInputs <= param_t'')) \<and>
   (nInputs prm \<le> param_t prm \<and> param_t prm < nOutputs prm \<and> 4 \<le> param_F prm \<and> 1 \<le> param_P prm \<and>
    param_F prm + param_P prm < 2 ^ 32 \<longrightarrow>
      Master_Poseidon_gadget_T be prm pb ins = Inl (AssertFailed ''nOutputs <= param_t'')) \<and>
   (nInputs prm \<le> param_t prm \<and> nOutputs prm \<le> param_t prm \<and> 4 \<le> param_F prm \<and> 1 \<le> param_P prm \<and>
    param_F prm + param_P prm < 2 ^ 32 \<longrightarrow>
      \<not> isl (Master_Poseidon_gadget_T be prm pb ins)) \<and>
   (\<forall>m pb'. Master_Poseidon_gadget_T be prm pb ins = Inr (m, pb') \<longrightarrow>
      nInputs prm \<le> param_t prm \<and> nOutputs prm \<le> param_t prm)"
proof (intro conjI impI allI)
  have mt: "Master_Poseidon_gadget_T be prm pb ins = Master_init prm ks pb ins"
    by (simp add: Master_Poseidon_gadget_T_def assms)
  note lC = poseidon_params_C_length[OF assms]
  {
    assume a: "param_t prm < nInputs prm \<and> nInputs prm \<le> length ins"
    show "Master_Poseidon_gadget_T be prm pb ins = Inl (AssertFailed ''nInputs <= param_t'')"
      unfolding mt using a lC(1) by (intro Master_init_nInputs_fails) simp_all
  }
  {
    assume a: "nInputs prm \<le> param_t prm \<and> param_t prm < nOutputs prm \<and> 4 \<le> param_F prm \<and>
      1 \<le> param_P prm \<and> param_F prm + param_P prm < 2 ^ 32"
    then have "length (C ks) = param_F prm + param_P prm" by (intro lC(2)) simp_all
    then show "Master_Poseidon_gadget_T be prm pb ins = Inl (AssertFailed ''nOutputs <= param_t'')"
      unfolding mt using a by (intro Master_init_nOutputs_fails) simp_all
  }
  {
    assume a: "nInputs prm \<le> param_t prm \<and> nOutputs prm \<le> param_t prm \<and> 4 \<le> param_F prm \<and>
      1 \<le> param_P prm \<and> param_F prm + param_P prm < 2 ^ 32"
    then have "length (C ks) = param_F prm + param_P prm" by (intro lC(2)) simp_all
    then have "\<exists>m pb6. Master_init prm ks pb ins = Inr (m, pb6)"
      using a by (intro Master_init_ok) simp_all
    then show "\<not> isl (Master_Poseidon_gadget_T be prm pb ins)"
      unfolding mt by auto
  }
  {
    fix m pb'
    assume "Master_Poseidon_gadget_T be prm pb ins = Inr (m, pb')"
    then show "nInputs prm \<le> param_t prm" "nOutputs prm \<le> param_t prm"
      using Master_T_checks_arity by blast+
  }
qed

theorem construction_checks_witness:
  "Master_Poseidon_gadget_T distinct_backend (Poseidon128 7 1 True)
     (grow 7 protoboard_new :: rat protoboard) [1, 2, 3, 4, 5, 6, 7]
     = Inl (AssertFailed ''nInputs <= param_t'') \<and>
   Master_Poseidon_gadget_T distinct_backend (Poseidon128 1 7 True)
     (grow 1 protoboard_new :: rat protoboard) [1]
     = Inl (AssertFailed ''nOutputs <= param_t'') \<and>
   \<not> isl (Master_Poseidon_gadget_T distinct_backend (Poseidon128 1 1 True)
            (grow 1 protoboard_new :: rat protoboard) [1]) \<and>
   (\<exists>m pb'. Master_Poseidon_gadget_T distinct_backend (Poseidon128 2 3 True)
              (grow 2 protoboard_new :: rat protoboard) [1, 2] = Inr (m, pb') \<and>
            nInputs (Poseidon128 2 3 True) \<le> param_t (Poseidon128 2 3 True) \<and>
            nOutputs (Poseidon128 2 3 True) \<le> param_t (Poseidon128 2 3 True))"
proof -
  have pp: "\<exists>ks :: rat PoseidonConstants.
      poseidon_params distinct_backend (of_nat (param_t (Poseidon128 nI nO True)))
        (of_nat (param_F (Poseidon128 nI nO True))) (of_nat (param_P (Poseidon128 nI nO True))) = Inr ks"
    for nI nO
    using poseidon_params_total[of "of_nat 6" distinct_backend "of_nat 8" "of_nat 57"]
    by (simp add: Poseidon128_def) blast
  obtain k1 :: "rat PoseidonConstants" where k1:
    "poseidon_params distinct_backend (of_nat (param_t (Poseidon128 7 1 True)))
        (of_nat (param_F (Poseidon128 7 1 True))) (of_nat (param_P (Poseidon128 7 1 True))) = Inr k1"
    using pp by blast
  obtain k2 :: "rat PoseidonConstants" where k2:
    "poseidon_params distinct_backend (of_nat (param_t (Poseidon128 1 7 True)))
        (of_nat (param_F (Poseidon128 1 7 True))) (of_nat (param_P (Poseidon128 1 7 True))) = Inr k2"
    using pp by blast
  obtain k3 :: "rat PoseidonConstants" where k3:
    "poseidon_params distinct_backend (of_nat (param_t (Poseidon128 1 1 True)))
        (of_nat (param_F (Poseidon128 1 1 True))) (of_nat (param_P (Poseidon128 1 1 True))) = Inr k3"
    using pp by blast
  obtain k4 :: "rat PoseidonConstants" where k4:
    "poseidon_params distinct_backend (of_nat (param_t (Poseidon128 2 3 True)))
        (of_nat (param_F (Poseidon128 2 3 True))) (of_nat (param_P (Poseidon128 2 3 True))) = Inr k4"
    using pp by blast
  have a: "Master_Poseidon_gadget_T distinct_backend (Poseidon128 7 1 True)
     (grow 7 protoboard_new :: rat protoboard) [1, 2, 3, 4, 5, 6, 7]
     = Inl (AssertFailed ''nInputs <= param_t'')"
    using construction_checks[OF k1, THEN conjunct1,
        of "[1, 2, 3, 4, 5, 6, 7]" "grow 7 protoboard_new"]
    by (simp add: Poseidon128_def)
  have b: "Master_Poseidon_gadget_T distinct_backend (Poseidon128 1 7 True)
     (grow 1 protoboard_new :: rat protoboard) [1]
     = Inl (AssertFailed ''nOutputs <= param_t'')"
    using construction_checks[OF k2, THEN conjunct2, THEN conjunct1, of "grow 1 protoboard_new" "[1]"]
    by (simp add: Poseidon128_def)
  have c: "\<not> isl (Master_Poseidon_gadget_T distinct_backend (Poseidon128 1 1 True)
            (grow 1 protoboard_new :: rat protoboard) [1])"
    using construction_checks[OF k3, THEN conjunct2, THEN conjunct2, THEN conjunct1,
        of "grow 1 protoboard_new" "[1]"]
    by (simp add: Poseidon128_def)
  have "\<not> isl (Master_Poseidon_gadget_T distinct_backend (Poseidon128 2 3 True)
            (grow 2 protoboard_new :: rat protoboard) [1, 2])"
    using construction_checks[OF k4, THEN conjunct2, THEN conjunct2, THEN conjunct1,
        of "grow 2 protoboard_new" "[1, 2]"]
    by (simp add: Poseidon128_def)
  then obtain m pb' where d1: "Master_Poseidon_gadget_T distinct_backend (Poseidon128 2 3 True)
              (grow 2 protoboard_new :: rat protoboard) [1, 2] = Inr (m, pb')"
    by (cases "Master_Poseidon_gadget_T distinct_backend (Poseidon128 2 3 True)
              (grow 2 protoboard_new :: rat protoboard) [1, 2]") auto
  from construction_checks[OF k4, THEN conjunct2, THEN conjunct2, THEN conjunct2, rule_format, OF d1]
  have d2: "nInputs (Poseidon128 2 3 True) \<le> param_t (Poseidon128 2 3 True) \<and>
            nOutputs (Poseidon128 2 3 True) \<le> param_t (Poseidon128 2 3 True)" .
  from a b c d1 d2 show ?thesis by blast
qed

text \<open>
  The claim as stated asks for an abort when \<open>F\<close> is odd or \<open>c > t\<close>.  With
  \<open>F = 5\<close>, and with \<open>c = 3\<close> and \<open>t = 2\<close>, the master is constructed; its board has
  35 variables in both cases.
\<close>

theorem unchecked_parameters_counterexample:
  "map_sum id (\<lambda>(m, pb'). num_variables pb')
     (Master_Poseidon_gadget_T distinct_backend
        \<lparr>param_t = 2, param_c = 1, param_F = 5, param_P = 1, nInputs = 1, nOutputs = 1,
         constrainOutputs = True\<rparr>
        (grow 1 protoboard_new :: rat protoboard) [1]) = Inr 35 \<and>
   map_sum id (\<lambda>(m, pb'). num_variables pb')
     (Master_Poseidon_gadget_T distinct_backend
        \<lparr>param_t = 2, param_c = 3, param_F = 4, param_P = 1, nInputs = 1, nOutputs = 1,
         constrainOutputs = True\<rparr>
        (grow 1 protoboard_new :: rat protoboard) [1]) = Inr 35"
proof -
  have n: "map_sum id (\<lambda>(m, pb'). num_variables pb')
             (Master_Poseidon_gadget_T distinct_backend prm (grow 1 protoboard_new :: rat protoboard) [1])
           = Inr (1 + 3 * (param_t prm * param_F prm + param_c prm * param_P prm) + nOutputs prm)"
    if h: "0 < param_t prm" "param_t prm < 2 ^ 31" "param_F prm + param_P prm < 2 ^ 32"
      "4 \<le> param_F prm" "1 \<le> param_P prm" "nInputs prm = 1" "1 \<le> param_t prm"
      "nOutputs prm \<le> param_t prm" "constrainOutputs prm" for prm
  proof -
    have nI: "nInputs prm \<le> param_t prm" using h by simp
    obtain m and pb' :: "rat protoboard" where
      eq: "Master_Poseidon_gadget_T distinct_backend prm (grow 1 protoboard_new) [1] = Inr (m, pb')"
      using Master_T_ok[OF h(1,2,3,4,5) nI h(8)] by blast
    then obtain ks where mi: "Master_init prm ks (grow 1 protoboard_new) [1] = Inr (m, pb')"
      by (rule Master_T_Inr_D)
    have "min (param_t prm) (nInputs prm) \<le> length [1 :: nat]" using h by simp
    from master_num_variables[OF mi this] have nv: "num_variables pb'
        = 1 + 3 * (param_t prm * param_F prm + param_c prm * param_P prm) + nOutputs prm"
      using h by (simp add: num_variables_def grow_def protoboard_new_def)
    show ?thesis unfolding eq by (simp add: nv)
  qed
  have a: "map_sum id (\<lambda>(m, pb'). num_variables pb')
     (Master_Poseidon_gadget_T distinct_backend
        \<lparr>param_t = 2, param_c = 1, param_F = 5, param_P = 1, nInputs = 1, nOutputs = 1,
         constrainOutputs = True\<rparr>
        (grow 1 protoboard_new :: rat protoboard) [1]) = Inr 35"
    using n[of "\<lparr>param_t = 2, param_c = 1, param_F = 5, param_P = 1, nInputs = 1, nOutputs = 1,
         constrainOutputs = True\<rparr>"] by simp
  have b: "map_sum id (\<lambda>(m, pb'). num_variables pb')
     (Master_Poseidon_gadget_T distinct_backend
        \<lparr>param_t = 2, param_c = 3, param_F = 4, param_P = 1, nInputs = 1, nOutputs = 1,
         constrainOutputs = True\<rparr>
        (grow 1 protoboard_new :: rat protoboard) [1]) = Inr 35"
    using n[of "\<lparr>param_t = 2, param_c = 3, param_F = 4, param_P = 1, nInputs = 1, nOutputs = 1,
         constrainOutputs = True\<rparr>"] by simp
  from a b show ?thesis by (rule conjI)
qed

section \<open>The instance stamper\<close>

lemma get_master_Inr_D:
  assumes "get_master be prm w = Inr (m, w')"
  shows "master_ptr w' = Some m" and "master_ptr w \<noteq> None \<Longrightarrow> w' = w"
    and "swapAB_flag w' = swapAB_flag w"
  using assms
  by (auto simp: get_master_def ebind_eq_Inr split_beta split: option.splits)

lemma make_var_array_grow: "make_var_array pb n = ([num_variables pb + 1 ..< num_variables pb + 1 + n], grow n pb)"
  by (simp add: make_var_array_def grow_def)

lemma Poseidon_gadget_T_Inr_D:
  assumes "Poseidon_gadget_T be prm w pb ins = Inr (g, pb', w')"
  obtains m ov where
    "get_master be prm w = Inr (m, w')"
    "length ins \<le> num_variables (master_pb w')"
    "pb' = grow (num_variables (master_pb w') - length ins) pb"
    "nth_err (output_vars m) 0 = Inr ov"
    "master g = m" "instance_inputs g = ins"
    "instance_variables_offset g = of_nat (num_variables pb + 1)"
proof -
  from assms obtain x where gm: "get_master be prm w = Inr x"
    and rest: "(\<lambda>(m, w1).
       let off = (of_nat (num_variables pb + 1) :: 32 word)
       in if num_variables (master_pb w1) < length ins then Inl BadAlloc
          else let (vars, pb1) = make_var_array pb (num_variables (master_pb w1) - length ins);
                   g = \<lparr>master = m, instance_inputs = ins,
                        instance_variables_offset = off, res = 0\<rparr>
               in ebind (nth_err (output_vars m) 0) (\<lambda>ov.
                  Inr (g\<lparr>res := unat (translate g (of_nat ov))\<rparr>, pb1, w1))) x = Inr (g, pb', w')"
    unfolding Poseidon_gadget_T_def by (rule ebind_InrE)
  obtain m w1 where x: "x = (m, w1)" by (cases x)
  from rest have le: "length ins \<le> num_variables (master_pb w1)"
    by (auto simp: x Let_def split: if_splits)
  with rest obtain ov where ov: "nth_err (output_vars m) 0 = Inr ov"
    and g: "g = \<lparr>master = m, instance_inputs = ins,
                 instance_variables_offset = of_nat (num_variables pb + 1),
                 res = unat (translate \<lparr>master = m, instance_inputs = ins,
                        instance_variables_offset = of_nat (num_variables pb + 1), res = 0\<rparr> (of_nat ov))\<rparr>"
    and pb': "pb' = grow (num_variables (master_pb w1) - length ins) pb"
    and w': "w' = w1"
    by (auto simp: x Let_def make_var_array_grow ebind_eq_Inr split: if_splits)
  show ?thesis
    by (rule that[OF gm[unfolded x w'[symmetric]] le[unfolded w'[symmetric]] pb'[unfolded w'[symmetric]] ov])
      (simp_all add: g)
qed

lemma translate_zero: "translate g 0 = 0"
  by (simp add: translate_def)

lemma translate_input:
  "1 \<le> unat k \<Longrightarrow> unat k \<le> length (instance_inputs g) \<Longrightarrow>
     translate g k = of_nat (instance_inputs g ! (unat k - 1))"
  by (auto simp: translate_def)

lemma translate_aux:
  "length (instance_inputs g) < unat k \<Longrightarrow>
     translate g k = instance_variables_offset g + (k - 1 - of_nat (length (instance_inputs g)))"
  by (auto simp: translate_def)

lemma translate_aux_nat:
  assumes "length (instance_inputs g) < unat k"
    and "instance_variables_offset g = of_nat off"
    and "off + (unat k - 1 - length (instance_inputs g)) < 2 ^ 32"
  shows "unat (translate g k) = off + (unat k - 1 - length (instance_inputs g))"
proof -
  let ?n = "length (instance_inputs g)"
  have k: "k = of_nat (unat k)" by simp
  have "unat k - 1 - ?n + (1 + ?n) = unat k" using assms(1) by simp
  then have "of_nat (unat k - 1 - ?n) + (1 + of_nat ?n) = (of_nat (unat k) :: 32 word)"
    by (metis of_nat_add of_nat_1)
  then have "k - 1 - of_nat ?n = (of_nat (unat k - 1 - ?n) :: 32 word)"
    by (simp add: algebra_simps)
  then have "translate g k = of_nat (off + (unat k - 1 - ?n))"
    using assms(1,2) by (simp add: translate_aux)
  then have "unat (translate g k) = unat (of_nat (off + (unat k - 1 - ?n)) :: 32 word)"
    by (rule arg_cong)
  also have "\<dots> = off + (unat k - 1 - ?n)"
    using assms(3) by (rule unat_of_nat32)
  finally show ?thesis .
qed

lemma get_master_new_ok:
  fixes w :: "'f::field world"
  assumes none: "master_ptr w = None"
    and t: "0 < param_t prm" "param_t prm < 2 ^ 31"
    and FP: "param_F prm + param_P prm < 2 ^ 32"
    and F: "4 \<le> param_F prm" and P: "1 \<le> param_P prm"
    and nI: "nInputs prm \<le> param_t prm" and nO: "nOutputs prm \<le> param_t prm"
  shows "\<exists>m pb2 n. Master_Poseidon_gadget_T be prm (grow (nInputs prm) (master_pb w))
                      [num_variables (master_pb w) + 1 ..< num_variables (master_pb w) + 1 + nInputs prm]
                    = Inr (m, pb2) \<and>
                  pb2 = grow n (grow (nInputs prm) (master_pb w)) \<and>
                  get_master be prm w
                    = Inr (m, w\<lparr>master_pb := emit (master_constraints prm m) pb2, master_ptr := Some m\<rparr>)"
proof -
  let ?pb1 = "grow (nInputs prm) (master_pb w)"
  let ?dummy = "[num_variables (master_pb w) + 1 ..< num_variables (master_pb w) + 1 + nInputs prm]"
  obtain m pb2 where mt: "Master_Poseidon_gadget_T be prm ?pb1 ?dummy = Inr (m, pb2)"
    using Master_T_ok[OF t FP F P nI nO] by blast
  then obtain ks where mi: "Master_init prm ks ?pb1 ?dummy = Inr (m, pb2)"
    by (rule Master_T_Inr_D)
  have len: "min (param_t prm) (nInputs prm) \<le> length ?dummy" by simp
  have gen: "master_generate_r1cs_constraints prm m pb2 = Inr (emit (master_constraints prm m) pb2)"
    using mi len by (rule master_generate_r1cs_constraints_ok)
  obtain n where n: "pb2 = grow n ?pb1"
    using Master_init_chain(4)[OF mi len] by blast
  have "get_master be prm w
          = Inr (m, w\<lparr>master_pb := emit (master_constraints prm m) pb2, master_ptr := Some m\<rparr>)"
    by (simp only: get_master_def none option.case make_var_array_grow Let_def prod.case mt
        ebind_Inr gen)
  with mt n show ?thesis by blast
qed

lemma Poseidon_gadget_T_ok:
  fixes w :: "'f::field world"
  assumes none: "master_ptr w = None"
    and t: "0 < param_t prm" "param_t prm < 2 ^ 31"
    and FP: "param_F prm + param_P prm < 2 ^ 32"
    and F: "4 \<le> param_F prm" and P: "1 \<le> param_P prm"
    and nI: "nInputs prm \<le> param_t prm" and nO: "nOutputs prm \<le> param_t prm"
    and co: "constrainOutputs prm" "1 \<le> nOutputs prm"
    and len: "length ins \<le> nInputs prm"
  shows "\<exists>g pb' w'. Poseidon_gadget_T be prm w pb ins = Inr (g, pb', w')"
proof -
  from get_master_new_ok[OF none t FP F P nI nO, of be] obtain m pb2 n where
    mt: "Master_Poseidon_gadget_T be prm (grow (nInputs prm) (master_pb w))
           [num_variables (master_pb w) + 1 ..< num_variables (master_pb w) + 1 + nInputs prm]
           = Inr (m, pb2)"
    and pb2: "pb2 = grow n (grow (nInputs prm) (master_pb w))"
    and gm: "get_master be prm w
              = Inr (m, w\<lparr>master_pb := emit (master_constraints prm m) pb2, master_ptr := Some m\<rparr>)"
    by blast
  from mt obtain ks where mi: "Master_init prm ks (grow (nInputs prm) (master_pb w))
           [num_variables (master_pb w) + 1 ..< num_variables (master_pb w) + 1 + nInputs prm]
           = Inr (m, pb2)"
    by (rule Master_T_Inr_D)
  have "length (output_vars m) = nOutputs prm"
    using Master_init_lengths(8)[OF mi] co by simp
  then have ov: "nth_err (output_vars m) 0 = Inr (output_vars m ! 0)"
    using co by (simp add: nth_err_def)
  have nv: "length ins \<le> num_variables (emit (master_constraints prm m) pb2)"
    using len by (simp add: pb2 emit_def num_variables_def grow_def)
  show ?thesis
    using nv by (simp add: Poseidon_gadget_T_def gm Let_def split_beta ov)
qed

lemma Poseidon_gadget_T_again:
  assumes "Poseidon_gadget_T be prm w pb ins = Inr (g, pb', w')" and "length ins2 = length ins"
  shows "\<exists>g2 pb2. Poseidon_gadget_T be prm w' pb0 ins2 = Inr (g2, pb2, w')"
proof -
  from assms(1) obtain m ov where
    gm: "get_master be prm w = Inr (m, w')"
    and le: "length ins \<le> num_variables (master_pb w')"
    and ov: "nth_err (output_vars m) 0 = Inr ov"
    by (rule Poseidon_gadget_T_Inr_D)
  have "master_ptr w' = Some m" using gm by (rule get_master_Inr_D)
  then have gm': "get_master be prm w' = Inr (m, w')"
    by (simp add: get_master_def)
  show ?thesis
    using le assms(2) by (simp add: Poseidon_gadget_T_def gm' Let_def split_beta ov)
qed

lemma num_variables_new [simp]: "num_variables protoboard_new = 0"
  by (simp add: protoboard_new_def num_variables_def)

lemma Poseidon128_sel [simp]:
  "param_t (Poseidon128 nI nO co) = 6" "param_c (Poseidon128 nI nO co) = 1"
  "param_F (Poseidon128 nI nO co) = 8" "param_P (Poseidon128 nI nO co) = 57"
  "nInputs (Poseidon128 nI nO co) = nI" "nOutputs (Poseidon128 nI nO co) = nO"
  "constrainOutputs (Poseidon128 nI nO co) = co"
  by (simp_all add: Poseidon128_def)

lemma Poseidon128_instance_ok:
  "\<exists>g pb' w'. Poseidon_gadget_T be (Poseidon128 1 1 True) world_new
                 (grow 3 protoboard_new :: rat protoboard) [2] = Inr (g, pb', w')"
  by (rule Poseidon_gadget_T_ok) (simp_all add: Poseidon128_def world_new_def)

text \<open>
  Claim C7.  For an instance constructed on a caller's board with \<open>nInputs\<close>
  input variables, the index translation maps \<open>0\<close> to \<open>0\<close>, an index \<open>k\<close> from
  \<open>1\<close> to \<open>nInputs\<close> to the index of input \<open>k - 1\<close>, and every \<open>k > nInputs\<close> to
  \<open>offset + (k - 1 - nInputs)\<close>, where \<open>offset\<close> is the number of variables of
  the board plus one, taken before the instance's own variables are
  allocated.  Indices are \<^verbatim>\<open>unsigned int\<close>: the sums are those of 32-bit
  words, and they are the sums of natural numbers as long as these stay below
  \<open>2 ^ 32\<close>.
\<close>

theorem translate_spec:
  assumes "Poseidon_gadget_T be prm w pb ins = Inr (g, pb', w')"
    and "length ins = nInputs prm"
  shows "instance_variables_offset g = of_nat (num_variables pb + 1) \<and>
         translate g 0 = 0 \<and>
         (\<forall>k. 1 \<le> unat k \<and> unat k \<le> nInputs prm \<longrightarrow> translate g k = of_nat (ins ! (unat k - 1))) \<and>
         (\<forall>k. nInputs prm < unat k \<longrightarrow>
            translate g k = of_nat (num_variables pb + 1) + (k - 1 - of_nat (nInputs prm))) \<and>
         (\<forall>k. nInputs prm < unat k \<and> num_variables pb + 1 + (unat k - 1 - nInputs prm) < 2 ^ 32 \<longrightarrow>
            unat (translate g k) = num_variables pb + 1 + (unat k - 1 - nInputs prm))"
proof -
  from assms(1) obtain m ov where
    g: "instance_inputs g = ins" "instance_variables_offset g = of_nat (num_variables pb + 1)"
    by (rule Poseidon_gadget_T_Inr_D)
  have a: "translate g k = of_nat (ins ! (unat k - 1))"
    if "1 \<le> unat k \<and> unat k \<le> nInputs prm" for k
    using translate_input[of k g] that g assms(2) by simp
  have b: "translate g k = of_nat (num_variables pb + 1) + (k - 1 - of_nat (nInputs prm))"
    if "nInputs prm < unat k" for k
    using translate_aux[of g k] that g assms(2) by simp
  have c: "unat (translate g k) = num_variables pb + 1 + (unat k - 1 - nInputs prm)"
    if "nInputs prm < unat k \<and> num_variables pb + 1 + (unat k - 1 - nInputs prm) < 2 ^ 32" for k
  proof -
    have len: "length (instance_inputs g) = nInputs prm"
      by (simp only: g(1) assms(2))
    from that have h1: "length (instance_inputs g) < unat k"
      and h2: "num_variables pb + 1 + (unat k - 1 - length (instance_inputs g)) < 2 ^ 32"
      unfolding len by blast+
    from translate_aux_nat[OF h1 g(2) h2] show ?thesis unfolding len .
  qed
  show ?thesis
    using g(2) a b c by (intro conjI allI impI translate_zero)
qed

theorem translate_spec_witness:
  "\<exists>g pb' w'. Poseidon_gadget_T example_backend (Poseidon128 1 1 True) world_new
                 (grow 3 protoboard_new :: rat protoboard) [2] = Inr (g, pb', w') \<and>
     instance_variables_offset g = 4 \<and> translate g 0 = 0 \<and> translate g 1 = 2 \<and>
     translate g 2 = 4 \<and> translate g 3 = 5 \<and> unat (translate g 318) = 320"
proof -
  obtain g pb' w' where
    eq: "Poseidon_gadget_T example_backend (Poseidon128 1 1 True) world_new
           (grow 3 protoboard_new :: rat protoboard) [2] = Inr (g, pb', w')"
    using Poseidon128_instance_ok by blast
  have n: "length [2 :: nat] = nInputs (Poseidon128 1 1 True)" by (simp add: Poseidon128_def)
  note s = translate_spec[OF eq n]
  have nv: "num_variables (grow 3 protoboard_new :: rat protoboard) = 3"
    by (simp add: protoboard_new_def num_variables_def grow_def)
  have nI: "nInputs (Poseidon128 1 1 True) = 1" by simp
  have a: "instance_variables_offset g = 4" using s nv by simp
  have b: "translate g 0 = 0" using s by simp
  have c: "translate g 1 = 2"
    using s[THEN conjunct2, THEN conjunct2, THEN conjunct1, rule_format, of 1] by simp
  have d: "translate g 2 = 4"
    using s[THEN conjunct2, THEN conjunct2, THEN conjunct2, THEN conjunct1, rule_format, of 2]
    by (simp add: nI nv)
  have e: "translate g 3 = 5"
    using s[THEN conjunct2, THEN conjunct2, THEN conjunct2, THEN conjunct1, rule_format, of 3]
    by (simp add: nI nv)
  have f: "unat (translate g 318) = 320"
    using s[THEN conjunct2, THEN conjunct2, THEN conjunct2, THEN conjunct2, rule_format, of 318]
    by (simp add: nI nv)
  from eq a b c d e f show ?thesis by blast
qed

lemma instance_generate_r1cs_constraints_frame:
  "pb_values (instance_generate_r1cs_constraints w g pb) = pb_values pb \<and>
   length (pb_constraints (instance_generate_r1cs_constraints w g pb))
     = length (pb_constraints pb) + length (pb_constraints (master_pb w))"
  by (simp add: instance_generate_r1cs_constraints_def)

lemma get_master_None_D:
  assumes "get_master be prm w = Inr (m, w')" and "master_ptr w = None"
  obtains pb2 pb3 where
    "Master_Poseidon_gadget_T be prm (grow (nInputs prm) (master_pb w))
       [num_variables (master_pb w) + 1 ..< num_variables (master_pb w) + 1 + nInputs prm] = Inr (m, pb2)"
    "master_generate_r1cs_constraints prm m pb2 = Inr pb3"
    "w' = w\<lparr>master_pb := pb3, master_ptr := Some m\<rparr>"
  using assms
  by (auto simp: get_master_def make_var_array_grow ebind_eq_Inr)

text \<open>
  The master board after the first constructor has run on fresh statics: the
  \<open>nInputs\<close> placeholder inputs, three variables for each S-box and the
  \<open>nOutputs\<close> output variables, all of value \<open>0\<close>, and the constraints of the
  master.
\<close>

lemma instance_master_board:
  fixes pb :: "'f::field protoboard"
  assumes con: "Poseidon_gadget_T be prm world_new pb ins = Inr (g, pb1, w1)"
  shows "constrainOutputs prm \<and> 1 \<le> nOutputs prm"
    and "num_variables (master_pb w1)
           = nInputs prm + 3 * (param_t prm * param_F prm + param_c prm * param_P prm) + nOutputs prm"
    and "pb_values (master_pb w1) = replicate (num_variables (master_pb w1)) 0"
    and "length (pb_constraints (master_pb w1))
           = 3 * (param_t prm * param_F prm + param_c prm * param_P prm) + nOutputs prm"
proof -
  from con obtain m ov where
    gm: "get_master be prm world_new = Inr (m, w1)"
    and ov: "nth_err (output_vars m) 0 = Inr ov"
    by (rule Poseidon_gadget_T_Inr_D)
  define pbA :: "'f protoboard" where "pbA = grow (nInputs prm) (master_pb world_new)"
  define insA where "insA = [num_variables (master_pb (world_new :: 'f world)) + 1 ..<
                             num_variables (master_pb (world_new :: 'f world)) + 1 + nInputs prm]"
  have none: "master_ptr (world_new :: 'f world) = None" by (simp add: world_new_def)
  from gm none obtain pb2 pb3 where
    mt: "Master_Poseidon_gadget_T be prm pbA insA = Inr (m, pb2)"
    and gc: "master_generate_r1cs_constraints prm m pb2 = Inr pb3"
    and w1: "w1 = world_new\<lparr>master_pb := pb3, master_ptr := Some m\<rparr>"
    unfolding pbA_def insA_def by (rule get_master_None_D)
  from mt obtain ks where mi: "Master_init prm ks pbA insA = Inr (m, pb2)"
    by (rule Master_T_Inr_D)
  have lenA: "min (param_t prm) (nInputs prm) \<le> length insA" by (simp add: insA_def)
  have "master_generate_r1cs_constraints prm m pb2 = Inr (emit (master_constraints prm m) pb2)"
    using mi lenA by (rule master_generate_r1cs_constraints_ok)
  with gc have pb3: "pb3 = emit (master_constraints prm m) pb2" by simp
  have mp: "master_pb w1 = pb3" by (simp add: w1)
  have pos: "0 < length (output_vars m)" using ov by (auto simp: nth_err_def split: if_splits)
  show co: "constrainOutputs prm \<and> 1 \<le> nOutputs prm"
  proof (cases "constrainOutputs prm")
    case True
    then have "length (output_vars m) = nOutputs prm"
      using Master_init_lengths(8)[OF mi] by simp
    with pos have "1 \<le> nOutputs prm" by linarith
    with True show ?thesis by simp
  next
    case False
    then have "length (output_vars m) = 0"
      using Master_init_lengths(8)[OF mi] by simp
    with pos have False by linarith
    then show ?thesis ..
  qed
  have nvA: "num_variables pbA = nInputs prm" by (simp add: pbA_def world_new_def)
  have nv2: "num_variables pb2
           = nInputs prm + 3 * (param_t prm * param_F prm + param_c prm * param_P prm) + nOutputs prm"
    using master_num_variables[OF mi lenA] co by (simp add: nvA)
  then show "num_variables (master_pb w1)
           = nInputs prm + 3 * (param_t prm * param_F prm + param_c prm * param_P prm) + nOutputs prm"
    by (simp add: mp pb3 emit_def num_variables_def)
  obtain k where "pb2 = grow k pbA" using Master_init_chain(4)[OF mi lenA] by blast
  then have "pb_values pb2 = replicate (nInputs prm + k) 0"
    by (simp add: pbA_def grow_def world_new_def protoboard_new_def replicate_add)
  then have "pb_values pb2 = replicate (length (pb_values pb2)) 0" by simp
  then show "pb_values (master_pb w1) = replicate (num_variables (master_pb w1)) 0"
    by (simp add: mp pb3 emit_def num_variables_def)
  have "pb_constraints pbA = []" by (simp add: pbA_def world_new_def protoboard_new_def)
  moreover have "length (pb_constraints pb3) = length (pb_constraints pbA)
             + (3 * (param_t prm * param_F prm + param_c prm * param_P prm) + nOutputs prm)"
    using co by (intro master_constraints_total[OF mt gc]) simp
  ultimately show "length (pb_constraints (master_pb w1))
           = 3 * (param_t prm * param_F prm + param_c prm * param_P prm) + nOutputs prm"
    by (simp add: mp)
qed

text \<open>
  Claim C10.  The constructor of an instance with \<open>nInputs\<close> input variables
  leaves the master built and registered in the statics (a second
  constructor reuses it and changes nothing there), and it allocates
  \<open>master.pb.num_variables() - nInputs\<close> fresh variables of value \<open>0\<close> at the end
  of the caller's board, a difference that does not wrap around; it leaves
  the values of the existing ones alone and appends no constraint.  Started
  on fresh statics the master board has
  \<open>nInputs + 3 * (t * F + c * P) + nOutputs\<close> variables, so each of the two
  constructors allocates \<open>3 * (t * F + c * P) + nOutputs\<close> variables.
  \<open>generate_r1cs_constraints\<close> is what appends constraints (one per constraint
  of the master) and it allocates nothing.  The variables that two
  constructors allocate one after the other on the same board are disjoint, and
  so are the images of the master's auxiliary indices under the two
  translations as long as the board has fewer than \<open>2 ^ 32\<close> variables.
\<close>

theorem instance_allocation:
  assumes c1: "Poseidon_gadget_T be prm w pb ins1 = Inr (g1, pb1, w1)"
    and c2: "Poseidon_gadget_T be prm w1 pb1 ins2 = Inr (g2, pb2, w2)"
    and l1: "length ins1 = nInputs prm" and l2: "length ins2 = nInputs prm"
  shows "master_ptr w1 = Some (master g1) \<and> master g2 = master g1 \<and> w2 = w1 \<and>
         nInputs prm \<le> num_variables (master_pb w1) \<and>
         (w = world_new \<longrightarrow>
            num_variables (master_pb w1)
              = nInputs prm + 3 * (param_t prm * param_F prm + param_c prm * param_P prm) + nOutputs prm \<and>
            length (pb_constraints (master_pb w1))
              = 3 * (param_t prm * param_F prm + param_c prm * param_P prm) + nOutputs prm \<and>
            num_variables pb1
              = num_variables pb + 3 * (param_t prm * param_F prm + param_c prm * param_P prm) + nOutputs prm \<and>
            num_variables pb2
              = num_variables pb1 + 3 * (param_t prm * param_F prm + param_c prm * param_P prm) + nOutputs prm) \<and>
         num_variables pb1 = num_variables pb + (num_variables (master_pb w1) - nInputs prm) \<and>
         pb_values pb1 = pb_values pb @ replicate (num_variables (master_pb w1) - nInputs prm) 0 \<and>
         pb_constraints pb1 = pb_constraints pb \<and>
         pb_values (instance_generate_r1cs_constraints w1 g1 pb1) = pb_values pb1 \<and>
         length (pb_constraints (instance_generate_r1cs_constraints w1 g1 pb1))
           = length (pb_constraints pb1) + length (pb_constraints (master_pb w1)) \<and>
         set (fst (make_var_array pb (num_variables (master_pb w1) - nInputs prm))) \<inter>
         set (fst (make_var_array pb1 (num_variables (master_pb w2) - nInputs prm))) = {} \<and>
         (\<forall>k1 k2. nInputs prm < unat k1 \<and> unat k1 \<le> num_variables (master_pb w1) \<and>
                  nInputs prm < unat k2 \<and> unat k2 \<le> num_variables (master_pb w2) \<and>
                  num_variables pb2 < 2 ^ 32 \<longrightarrow> translate g1 k1 \<noteq> translate g2 k2)"
proof -
  from c1 obtain m ov where
    gm1: "get_master be prm w = Inr (m, w1)"
    and le1: "length ins1 \<le> num_variables (master_pb w1)"
    and pb1: "pb1 = grow (num_variables (master_pb w1) - length ins1) pb"
    and ov1: "nth_err (output_vars m) 0 = Inr ov"
    and mg1: "master g1 = m"
    and g1: "instance_inputs g1 = ins1" "instance_variables_offset g1 = of_nat (num_variables pb + 1)"
    by (rule Poseidon_gadget_T_Inr_D)
  from c2 obtain m' ov' where
    gm2: "get_master be prm w1 = Inr (m', w2)"
    and le2: "length ins2 \<le> num_variables (master_pb w2)"
    and pb2: "pb2 = grow (num_variables (master_pb w2) - length ins2) pb1"
    and ov2: "nth_err (output_vars m') 0 = Inr ov'"
    and mg2: "master g2 = m'"
    and g2: "instance_inputs g2 = ins2" "instance_variables_offset g2 = of_nat (num_variables pb1 + 1)"
    by (rule Poseidon_gadget_T_Inr_D)
  have ptr: "master_ptr w1 = Some (master g1)"
    using get_master_Inr_D(1)[OF gm1] by (simp add: mg1)
  then have w2: "w2 = w1" using get_master_Inr_D(2)[OF gm2] by simp
  have "Inr (m', w2) = (Inr (master g1, w1) :: error + _)"
    using gm2 ptr by (simp add: get_master_def)
  then have same: "master g2 = master g1" by (simp add: mg2)
  have leI: "nInputs prm \<le> num_variables (master_pb w1)" using le1 l1 by simp
  let ?A = "3 * (param_t prm * param_F prm + param_c prm * param_P prm) + nOutputs prm"
  let ?n1 = "num_variables (master_pb w1) - nInputs prm"
  let ?n2 = "num_variables (master_pb w2) - nInputs prm"
  have nv1: "num_variables pb1 = num_variables pb + ?n1" by (simp add: pb1 l1)
  have nv2: "num_variables pb2 = num_variables pb1 + ?n2" by (simp add: pb2 l2)
  have fresh: "num_variables (master_pb w1) = nInputs prm + ?A \<and>
      length (pb_constraints (master_pb w1)) = ?A \<and>
      num_variables pb1 = num_variables pb + ?A \<and> num_variables pb2 = num_variables pb1 + ?A"
    if "w = world_new"
  proof -
    note mb = instance_master_board[OF c1[unfolded that]]
    show ?thesis using mb(2,4) nv1 nv2 by (simp add: w2)
  qed
  have disj: "set (fst (make_var_array pb ?n1)) \<inter> set (fst (make_var_array pb1 ?n2)) = {}"
    by (auto simp: make_var_array_grow nv1)
  have tr: "translate g1 k1 \<noteq> translate g2 k2"
    if k: "nInputs prm < unat k1" "unat k1 \<le> num_variables (master_pb w1)"
      "nInputs prm < unat k2" "unat k2 \<le> num_variables (master_pb w2)"
      "num_variables pb2 < 2 ^ 32" for k1 k2
  proof -
    have b1: "num_variables pb + 1 + (unat k1 - 1 - length (instance_inputs g1)) \<le> num_variables pb1"
      using k(1,2) by (simp add: nv1 g1 l1)
    then have "num_variables pb + 1 + (unat k1 - 1 - length (instance_inputs g1)) < 2 ^ 32"
      using k(5) nv2 by simp
    from translate_aux_nat[OF _ g1(2) this] k(1)
    have u1: "unat (translate g1 k1) = num_variables pb + 1 + (unat k1 - 1 - length (instance_inputs g1))"
      by (simp add: g1 l1)
    have "num_variables pb1 + 1 + (unat k2 - 1 - length (instance_inputs g2)) \<le> num_variables pb2"
      using k(3,4) by (simp add: nv2 g2 l2)
    then have "num_variables pb1 + 1 + (unat k2 - 1 - length (instance_inputs g2)) < 2 ^ 32"
      using k(5) by simp
    from translate_aux_nat[OF _ g2(2) this] k(3)
    have u2: "unat (translate g2 k2) = num_variables pb1 + 1 + (unat k2 - 1 - length (instance_inputs g2))"
      by (simp add: g2 l2)
    have "unat (translate g1 k1) < unat (translate g2 k2)"
      unfolding u1 u2 using b1 by simp
    then show ?thesis by auto
  qed
  have old: "num_variables pb1 = num_variables pb + ?n1 \<and>
         pb_values pb1 = pb_values pb @ replicate ?n1 0 \<and>
         pb_constraints pb1 = pb_constraints pb \<and>
         pb_values (instance_generate_r1cs_constraints w1 g1 pb1) = pb_values pb1 \<and>
         length (pb_constraints (instance_generate_r1cs_constraints w1 g1 pb1))
           = length (pb_constraints pb1) + length (pb_constraints (master_pb w1)) \<and>
         set (fst (make_var_array pb ?n1)) \<inter> set (fst (make_var_array pb1 ?n2)) = {} \<and>
         (\<forall>k1 k2. nInputs prm < unat k1 \<and> unat k1 \<le> num_variables (master_pb w1) \<and>
                  nInputs prm < unat k2 \<and> unat k2 \<le> num_variables (master_pb w2) \<and>
                  num_variables pb2 < 2 ^ 32 \<longrightarrow> translate g1 k1 \<noteq> translate g2 k2)"
    using nv1 disj tr instance_generate_r1cs_constraints_frame[of w1 g1 pb1]
    by (simp add: pb1 l1 grow_def)
  have fresh': "w = world_new \<longrightarrow>
            num_variables (master_pb w1)
              = nInputs prm + 3 * (param_t prm * param_F prm + param_c prm * param_P prm) + nOutputs prm \<and>
            length (pb_constraints (master_pb w1))
              = 3 * (param_t prm * param_F prm + param_c prm * param_P prm) + nOutputs prm \<and>
            num_variables pb1
              = num_variables pb + 3 * (param_t prm * param_F prm + param_c prm * param_P prm) + nOutputs prm \<and>
            num_variables pb2
              = num_variables pb1 + 3 * (param_t prm * param_F prm + param_c prm * param_P prm) + nOutputs prm"
    using fresh by (simp add: add.assoc)
  show ?thesis
    by (rule conjI[OF ptr conjI[OF same conjI[OF w2 conjI[OF leI conjI[OF fresh' old]]]]])
qed

theorem instance_allocation_witness:
  "\<exists>g1 pb1 w1 g2 pb2 w2.
     Poseidon_gadget_T distinct_backend (Poseidon128 1 1 True) world_new
       (grow 3 protoboard_new :: rat protoboard) [2] = Inr (g1, pb1, w1) \<and>
     Poseidon_gadget_T distinct_backend (Poseidon128 1 1 True) w1 pb1 [3] = Inr (g2, pb2, w2) \<and>
     master_ptr w1 = Some (master g1) \<and> w2 = w1 \<and>
     num_variables (master_pb w1) = 317 \<and> length (pb_constraints (master_pb w1)) = 316 \<and>
     num_variables pb1 = 319 \<and> num_variables pb2 = 635 \<and>
     pb_values pb1 = replicate 319 0 \<and>
     pb_constraints pb1 = [] \<and>
     length (pb_constraints (instance_generate_r1cs_constraints w1 g1 pb1)) = 316 \<and>
     set (fst (make_var_array (grow 3 protoboard_new :: rat protoboard) 316)) \<inter>
     set (fst (make_var_array pb1 316)) = {}"
proof -
  obtain g1 pb1 w1 where
    c1: "Poseidon_gadget_T distinct_backend (Poseidon128 1 1 True) world_new
           (grow 3 protoboard_new :: rat protoboard) [2] = Inr (g1, pb1, w1)"
    using Poseidon128_instance_ok by blast
  obtain g2 pb2 where
    c2: "Poseidon_gadget_T distinct_backend (Poseidon128 1 1 True) w1 pb1 [3] = Inr (g2, pb2, w1)"
    using Poseidon_gadget_T_again[OF c1, of "[3]" pb1] by auto
  have l: "length [2 :: nat] = nInputs (Poseidon128 1 1 True)"
    "length [3 :: nat] = nInputs (Poseidon128 1 1 True)"
    by (simp_all add: Poseidon128_def)
  have nv: "num_variables (grow 3 protoboard_new :: rat protoboard) = 3"
    "pb_constraints (grow 3 protoboard_new :: rat protoboard) = []"
    "pb_values (grow 3 protoboard_new :: rat protoboard) = replicate 3 0"
    by (simp_all add: protoboard_new_def num_variables_def grow_def)
  note s = instance_allocation[OF c1 c2 l]
  have p: "master_ptr w1 = Some (master g1)" using s by blast
  have f: "num_variables (master_pb w1) = 317 \<and> length (pb_constraints (master_pb w1)) = 316 \<and>
           num_variables pb1 = 319 \<and> num_variables pb2 = 635"
    using s by (simp add: nv)
  have v: "pb_values pb1 = replicate 319 0"
  proof -
    have "pb_values pb1 = pb_values (grow 3 protoboard_new :: rat protoboard)
            @ replicate (num_variables (master_pb w1) - nInputs (Poseidon128 1 1 True)) 0"
      using s by blast
    then show ?thesis using f by (simp add: nv replicate_add[symmetric])
  qed
  have b: "pb_constraints pb1 = []" using s by (simp add: protoboard_new_def)
  have n: "length (pb_constraints (instance_generate_r1cs_constraints w1 g1 pb1)) = 316"
    using s f b by simp
  have "set (fst (make_var_array (grow 3 protoboard_new :: rat protoboard)
                 (num_variables (master_pb w1) - nInputs (Poseidon128 1 1 True)))) \<inter>
     set (fst (make_var_array pb1 (num_variables (master_pb w1) - nInputs (Poseidon128 1 1 True)))) = {}"
    using s by blast
  then have c: "set (fst (make_var_array (grow 3 protoboard_new :: rat protoboard) 316)) \<inter>
     set (fst (make_var_array pb1 316)) = {}"
    using f by simp
  from c1 c2 p f v b n c show ?thesis by blast
qed

section \<open>Witness generation of the master\<close>

lemma var_value_agree:
  "take b vs = take b vs' \<Longrightarrow> i \<le> b \<Longrightarrow> var_value vs i = var_value vs' i"
  by (cases "i = 0") (auto simp: var_value_def dest: arg_cong[where f = "\<lambda>xs. xs ! (i - 1)"])

lemma lc_sum_agree:
  "take b vs = take b vs' \<Longrightarrow> lc_fits b lc \<Longrightarrow> lc_sum vs lc = lc_sum vs' lc"
  by (induction lc) (auto simp: var_value_agree)

lemma take_update_ge: "b \<le> p \<Longrightarrow> take b (xs[p := x]) = take b xs"
  by simp

lemma fp_generate_r1cs_witness_at:
  assumes "b + 3 * h + 3 \<le> length (pb_values pb)"
  shows "fp_generate_r1cs_witness (sbox_at b h) v pb
           = Inr (pb\<lparr>pb_values := (pb_values pb)[b + 3 * h := v * v,
                       b + 3 * h + 1 := (v * v) * (v * v),
                       b + 3 * h + 2 := (v * v) * (v * v) * v]\<rparr>)"
  using assms
  by (simp add: fp_generate_r1cs_witness_def Let_def pb_set_val_def sbox_at_def)

lemma take_take_le: "b \<le> n \<Longrightarrow> take n vs = take n vs' \<Longrightarrow> take b vs = take b vs'"
  by (metis min.absorb1 take_take)

lemma nth_agree: "take n vs = take n vs' \<Longrightarrow> p < n \<Longrightarrow> vs ! p = vs' ! p"
  by (metis nth_take)

lemma sbox_value_agree:
  assumes "take b vs = take b vs'" and "h < nI \<Longrightarrow> lc_fits b (state r ! h)"
  shows "sbox_value nI r vs h = sbox_value nI r vs' h"
proof (cases "h < nI")
  case True
  then have "lc_sum vs (state r ! h) = lc_sum vs' (state r ! h)"
    using assms by (intro lc_sum_agree) simp_all
  then show ?thesis by (simp add: sbox_value_def)
next
  case False
  then show ?thesis by (simp add: sbox_value_def)
qed

lemma sbox_sat_agree:
  assumes "take (b + 3 * h + 3) vs = take (b + 3 * h + 3) vs'"
    and "h < nI \<Longrightarrow> lc_fits b (state r ! h)"
  shows "sbox_sat b nI r vs h \<longleftrightarrow> sbox_sat b nI r vs' h"
proof -
  have "take b vs = take b vs'" using assms(1) by (rule take_take_le[rotated]) simp
  then have v: "sbox_value nI r vs h = sbox_value nI r vs' h"
    using assms(2) by (rule sbox_value_agree)
  have "vs ! (b + 3 * h) = vs' ! (b + 3 * h)" "vs ! (b + 3 * h + 1) = vs' ! (b + 3 * h + 1)"
    "vs ! (b + 3 * h + 2) = vs' ! (b + 3 * h + 2)"
    by (rule nth_agree[OF assms(1)], simp)
      (rule nth_agree[OF assms(1)], simp)+
  then show ?thesis by (simp add: sbox_sat_def v)
qed

lemma round_witness_loop:
  fixes pb :: "'f::field protoboard"
  assumes sb: "\<And>h. h < nS \<Longrightarrow> h < length (sboxes r) \<and> sboxes r ! h = sbox_at b h"
    and st: "\<And>h. h < nS \<Longrightarrow> h < nI \<Longrightarrow> h < length (state r) \<and> lc_fits b (state r ! h)"
    and len: "b + 3 * nS \<le> length (pb_values pb)"
    and k: "k \<le> nS"
  shows "\<exists>vs'. foldM (\<lambda>h pb.
              ebind (if h < nI
                     then ebind (nth_err (state r) h) (\<lambda>st.
                          ebind (lc_val pb st) (\<lambda>v. Inr (C_i r + v)))
                     else Inr (C_i r)) (\<lambda>val.
              ebind (nth_err (sboxes r) h) (\<lambda>g.
              fp_generate_r1cs_witness g val pb))) [0 ..< k] pb = Inr (pb\<lparr>pb_values := vs'\<rparr>) \<and>
           length vs' = length (pb_values pb) \<and>
           take b vs' = take b (pb_values pb) \<and>
           drop (b + 3 * k) vs' = drop (b + 3 * k) (pb_values pb) \<and>
           (\<forall>h. h < k \<longrightarrow> sbox_sat b nI r vs' h)"
  using k
proof (induction k)
  case 0
  have "pb\<lparr>pb_values := pb_values pb\<rparr> = pb" by simp
  then show ?case by (intro exI[of _ "pb_values pb"]) simp
next
  case (Suc k)
  let ?f = "\<lambda>h pb.
              ebind (if h < nI
                     then ebind (nth_err (state r) h) (\<lambda>st.
                          ebind (lc_val pb st) (\<lambda>v. Inr (C_i r + v)))
                     else Inr (C_i r)) (\<lambda>val.
              ebind (nth_err (sboxes r) h) (\<lambda>g.
              fp_generate_r1cs_witness g val pb))"
  have kle: "k \<le> nS" using Suc.prems by simp
  from Suc.IH[OF kle] obtain vs1 where
    run: "foldM ?f [0 ..< k] pb = Inr (pb\<lparr>pb_values := vs1\<rparr>)"
    and l1: "length vs1 = length (pb_values pb)"
    and t1: "take b vs1 = take b (pb_values pb)"
    and d1: "drop (b + 3 * k) vs1 = drop (b + 3 * k) (pb_values pb)"
    and s1: "\<forall>h. h < k \<longrightarrow> sbox_sat b nI r vs1 h"
    by (elim exE conjE)
  have kS: "k < nS" using Suc.prems by simp
  let ?pb1 = "pb\<lparr>pb_values := vs1\<rparr>"
  define v where "v = sbox_value nI r vs1 k"
  have val: "(if k < nI
                     then ebind (nth_err (state r) k) (\<lambda>st.
                          ebind (lc_val ?pb1 st) (\<lambda>v. Inr (C_i r + v)))
                     else Inr (C_i r)) = Inr v"
  proof (cases "k < nI")
    case True
    from st[OF kS True] have a: "k < length (state r)" and f: "lc_fits b (state r ! k)" by simp_all
    have "lc_fits (length (pb_values ?pb1)) (state r ! k)"
      using f len l1 by (auto intro: lc_fits_mono)
    then have "lc_val ?pb1 (state r ! k) = Inr (lc_sum vs1 (state r ! k))"
      by (simp add: lc_val_fits)
    then show ?thesis using True a by (simp add: nth_err_def v_def sbox_value_def)
  next
    case False
    then show ?thesis by (simp add: v_def sbox_value_def)
  qed
  have g: "nth_err (sboxes r) k = Inr (sbox_at b k)"
    using sb[OF kS] by (simp add: nth_err_def)
  have room: "b + 3 * k + 3 \<le> length (pb_values ?pb1)"
    using len l1 kS by simp
  define vs2 where "vs2 = vs1[b + 3 * k := v * v, b + 3 * k + 1 := (v * v) * (v * v),
                       b + 3 * k + 2 := (v * v) * (v * v) * v]"
  have step: "?f k ?pb1 = Inr (pb\<lparr>pb_values := vs2\<rparr>)"
    by (simp only: val g ebind_Inr fp_generate_r1cs_witness_at[OF room])
      (simp add: vs2_def)
  have run2: "foldM ?f [0 ..< Suc k] pb = Inr (pb\<lparr>pb_values := vs2\<rparr>)"
    by (simp add: foldM_snoc run step)
  have l2: "length vs2 = length (pb_values pb)" by (simp add: vs2_def l1)
  have tk: "take (b + 3 * k) vs2 = take (b + 3 * k) vs1" by (simp add: vs2_def)
  have t2: "take b vs2 = take b (pb_values pb)"
    using t1 by (simp add: vs2_def)
  have d2: "drop (b + 3 * Suc k) vs2 = drop (b + 3 * Suc k) (pb_values pb)"
  proof -
    have e: "b + 3 * Suc k = 3 + (b + 3 * k)" by simp
    have "drop (b + 3 * Suc k) vs2 = drop (b + 3 * Suc k) vs1"
      by (simp add: vs2_def drop_update_cancel)
    also have "\<dots> = drop 3 (drop (b + 3 * k) vs1)" by (simp only: e drop_drop)
    also have "\<dots> = drop 3 (drop (b + 3 * k) (pb_values pb))" by (simp only: d1)
    also have "\<dots> = drop (b + 3 * Suc k) (pb_values pb)" by (simp only: e drop_drop)
    finally show ?thesis .
  qed
  have old: "sbox_sat b nI r vs2 h" if "h < k" for h
  proof -
    have a: "take (b + 3 * h + 3) vs2 = take (b + 3 * h + 3) vs1"
      using that by (intro take_take_le[OF _ tk]) simp
    have f: "h < nI \<Longrightarrow> lc_fits b (state r ! h)" using st[of h] that kS by simp
    have "sbox_sat b nI r vs1 h" using s1 that by simp
    then show ?thesis using sbox_sat_agree[OF a f] by blast
  qed
  have v2: "sbox_value nI r vs2 k = v"
    unfolding v_def
    by (rule sbox_value_agree[where b = b]) (use t1 t2 st[OF kS] in simp_all)
  have new: "sbox_sat b nI r vs2 k"
    unfolding sbox_sat_def v2 using room by (simp add: vs2_def l1)
  have all: "\<forall>h. h < Suc k \<longrightarrow> sbox_sat b nI r vs2 h"
    using old new by (simp add: less_Suc_eq)
  show ?case
    by (rule exI[of _ vs2]) (intro conjI run2 l2 t2 d2 all)
qed

lemma round_generate_r1cs_witness_ok:
  fixes pb :: "'f::field protoboard"
  assumes sb: "sboxes r = map (sbox_at b) [0 ..< nS]"
    and st: "min nS nI \<le> length (state r)" "states_fit b (state r)"
    and len: "b + 3 * nS \<le> length (pb_values pb)"
  shows "\<exists>vs'. round_generate_r1cs_witness nS nI r pb = Inr (pb\<lparr>pb_values := vs'\<rparr>) \<and>
           length vs' = length (pb_values pb) \<and>
           take b vs' = take b (pb_values pb) \<and>
           drop (b + 3 * nS) vs' = drop (b + 3 * nS) (pb_values pb) \<and>
           sboxes_sat b nS nI r vs'"
proof -
  have 1: "h < length (sboxes r) \<and> sboxes r ! h = sbox_at b h" if "h < nS" for h
    using that by (simp add: sb)
  have 2: "h < length (state r) \<and> lc_fits b (state r ! h)" if "h < nS" "h < nI" for h
  proof -
    have "h < length (state r)" using that st(1) by simp
    then show ?thesis using st(2) by (simp add: states_fit_def list_all_length)
  qed
  show ?thesis
    unfolding round_generate_r1cs_witness_def sboxes_sat_def
    by (rule round_witness_loop[OF 1 2 len order_refl])
qed

lemma sboxes_sat_agree:
  assumes "take (b + 3 * nS) vs = take (b + 3 * nS) vs'"
    and "min nS nI \<le> length (state r)" "states_fit b (state r)"
    and "sboxes_sat b nS nI r vs"
  shows "sboxes_sat b nS nI r vs'"
  unfolding sboxes_sat_def
proof (intro allI impI)
  fix h assume h: "h < nS"
  have a: "take (b + 3 * h + 3) vs = take (b + 3 * h + 3) vs'"
    using h by (intro take_take_le[OF _ assms(1)]) simp
  have f: "h < nI \<Longrightarrow> lc_fits b (state r ! h)"
    using h assms(2,3) by (simp add: states_fit_def list_all_length)
  have "sbox_sat b nI r vs h" using assms(4) h by (simp add: sboxes_sat_def)
  then show "sbox_sat b nI r vs' h" using sbox_sat_agree[OF a f] by blast
qed

lemma lc_fits_fold_plus:
  "lc_fits n acc \<Longrightarrow> (\<And>k. k \<in> set ks \<Longrightarrow> lc_fits n (f k))
     \<Longrightarrow> lc_fits n (fold (\<lambda>k lc. lc_plus lc (f k)) ks acc)"
  by (induction ks arbitrary: acc) (simp_all add: lc_fits_plus)

lemma lc_fits_map: "lc_fits n (map (\<lambda>s. (g s, c s)) ss) \<longleftrightarrow> (\<forall>s \<in> set ss. g s \<le> n)"
  by (induction ss) simp_all

lemma lc_fits_row_lc:
  assumes "states_fit b st" and "\<And>k. nS \<le> k \<Longrightarrow> k < nI \<Longrightarrow> k < length st"
  shows "lc_fits (b + 3 * nS) (row_lc t nS nI c_i in_M st (map (sbox_at b) [0 ..< nS]) i)"
  unfolding row_lc_def
proof (rule lc_fits_fold_plus)
  show "lc_fits (b + 3 * nS) (row_head t nS c_i in_M (map (sbox_at b) [0 ..< nS]) i)"
    by (simp add: row_head_def lc_fits_map ONE_def sbox_at_def)
  show "lc_fits (b + 3 * nS) (lc_times (st ! k) (in_M ! (i * t + k)))" if "k \<in> set [nS ..< nI]" for k
  proof -
    have "k < length st" using that assms(2) by simp
    then have "lc_fits b (st ! k)" using assms(1) by (simp add: states_fit_def list_all_length)
    then have "lc_fits (b + 3 * nS) (st ! k)" by (rule lc_fits_mono) simp
    then show ?thesis by (rule lc_fits_times)
  qed
qed

lemma states_fit_round_at:
  assumes "states_fit b st" and "round_ok t nS nI nO (length st)"
  shows "states_fit (b + 3 * nS) (outputs (round_at t nS nI nO b c_i in_M st))"
  unfolding states_fit_def list_all_length
proof (intro allI impI)
  fix i assume "i < length (outputs (round_at t nS nI nO b c_i in_M st))"
  then have i: "i < nO" by simp
  have "\<And>k. nS \<le> k \<Longrightarrow> k < nI \<Longrightarrow> k < length st"
    using assms(2) i by (auto simp: round_ok_def)
  then have "lc_fits (b + 3 * nS) (row_lc t nS nI c_i in_M st (map (sbox_at b) [0 ..< nS]) i)"
    by (rule lc_fits_row_lc[OF assms(1)])
  then show "lc_fits (b + 3 * nS) (outputs (round_at t nS nI nO b c_i in_M st) ! i)"
    using i by (simp add: round_at_def)
qed

lemma chain_end_ge: "b \<le> chain_end b xs"
proof (induction xs arbitrary: b)
  case Nil
  then show ?case by simp
next
  case (Cons x xs)
  obtain nS nI nO r where x: "x = (nS, nI, nO, r)" by (cases x)
  have "b + 3 * nS \<le> chain_end (b + 3 * nS) xs" by (rule Cons.IH)
  then show ?case by (simp add: x)
qed

lemma round_at_sel:
  "r = round_at t nS nI nO b c_i in_M st \<Longrightarrow>
     sboxes r = map (sbox_at b) [0 ..< nS] \<and> state r = st \<and> C_i r = c_i \<and>
     outputs r = map (row_lc t nS nI c_i in_M st (map (sbox_at b) [0 ..< nS])) [0 ..< nO]"
  by (simp add: round_at_def)

lemma chain_witness_Cons:
  "chain_witness ((nS, nI, nO, r) # rest) pb
     = ebind (round_generate_r1cs_witness nS nI r pb) (chain_witness rest)"
  by (simp add: chain_witness_def ebind_def)

lemma chain_witness_ok:
  fixes pb :: "'f::field protoboard"
  assumes "chain t in_M b st xs" and "states_fit b st"
    and "chain_end b xs \<le> length (pb_values pb)"
  shows "\<exists>vs'. chain_witness xs pb = Inr (pb\<lparr>pb_values := vs'\<rparr>) \<and>
           length vs' = length (pb_values pb) \<and>
           take b vs' = take b (pb_values pb) \<and>
           drop (chain_end b xs) vs' = drop (chain_end b xs) (pb_values pb) \<and>
           chain_sat b xs vs' \<and>
           states_fit (chain_end b xs) (chain_out st xs)"
  using assms
proof (induction xs arbitrary: b st pb)
  case Nil
  have "pb\<lparr>pb_values := pb_values pb\<rparr> = pb" by simp
  then show ?case using Nil.prems(2)
    by (intro exI[of _ "pb_values pb"]) (simp add: chain_witness_def)
next
  case (Cons x xs)
  obtain nS nI nO r where x: "x = (nS, nI, nO, r)" by (cases x)
  from Cons.prems(1) have ok: "round_ok t nS nI nO (length st)"
    and mn: "min nS nI \<le> length st"
    and r: "r = round_at t nS nI nO b (C_i r) in_M st"
    and ch: "chain t in_M (b + 3 * nS) (outputs r) xs"
    by (simp_all add: x)
  note sel = round_at_sel[OF r]
  have sb: "sboxes r = map (sbox_at b) [0 ..< nS]" and str: "state r = st" using sel by simp_all
  have e: "chain_end b (x # xs) = chain_end (b + 3 * nS) xs" by (simp add: x)
  have ge: "b + 3 * nS \<le> chain_end (b + 3 * nS) xs" by (rule chain_end_ge)
  have room: "b + 3 * nS \<le> length (pb_values pb)" using Cons.prems(3) ge by (simp add: e)
  have mn': "min nS nI \<le> length (state r)" and sf': "states_fit b (state r)"
    using mn Cons.prems(2) by (simp_all add: str)
  from round_generate_r1cs_witness_ok[OF sb mn' sf' room] obtain vs1 where
    run1: "round_generate_r1cs_witness nS nI r pb = Inr (pb\<lparr>pb_values := vs1\<rparr>)"
    and l1: "length vs1 = length (pb_values pb)"
    and t1: "take b vs1 = take b (pb_values pb)"
    and d1: "drop (b + 3 * nS) vs1 = drop (b + 3 * nS) (pb_values pb)"
    and s1: "sboxes_sat b nS nI r vs1"
    by blast
  let ?pb1 = "pb\<lparr>pb_values := vs1\<rparr>"
  have fit: "states_fit (b + 3 * nS) (outputs r)"
    using states_fit_round_at[OF Cons.prems(2) ok, of "C_i r" in_M] r by simp
  have room1: "chain_end (b + 3 * nS) xs \<le> length (pb_values ?pb1)"
    using Cons.prems(3) by (simp add: e l1)
  from Cons.IH[OF ch fit room1] obtain vs2 where
    run2: "chain_witness xs ?pb1 = Inr (?pb1\<lparr>pb_values := vs2\<rparr>)"
    and l2: "length vs2 = length (pb_values ?pb1)"
    and t2: "take (b + 3 * nS) vs2 = take (b + 3 * nS) (pb_values ?pb1)"
    and d2: "drop (chain_end (b + 3 * nS) xs) vs2 = drop (chain_end (b + 3 * nS) xs) (pb_values ?pb1)"
    and s2: "chain_sat (b + 3 * nS) xs vs2"
    and f2: "states_fit (chain_end (b + 3 * nS) xs) (chain_out (outputs r) xs)"
    by blast
  have run: "chain_witness (x # xs) pb = Inr (pb\<lparr>pb_values := vs2\<rparr>)"
    by (simp add: x chain_witness_Cons run1 run2)
  have len: "length vs2 = length (pb_values pb)" using l2 l1 by simp
  have t2': "take (b + 3 * nS) vs1 = take (b + 3 * nS) vs2" using t2 by simp
  have tk: "take b vs2 = take b (pb_values pb)"
    using take_take_le[OF _ t2', of b] t1 by simp
  have dr: "drop (chain_end b (x # xs)) vs2 = drop (chain_end b (x # xs)) (pb_values pb)"
  proof -
    define d where "d = chain_end (b + 3 * nS) xs - (b + 3 * nS)"
    have d: "chain_end (b + 3 * nS) xs = d + (b + 3 * nS)"
      using ge by (simp add: d_def)
    have "drop (chain_end (b + 3 * nS) xs) vs1 = drop d (drop (b + 3 * nS) vs1)"
      by (simp only: d drop_drop)
    also have "\<dots> = drop d (drop (b + 3 * nS) (pb_values pb))" by (simp only: d1)
    also have "\<dots> = drop (chain_end (b + 3 * nS) xs) (pb_values pb)" by (simp only: d drop_drop)
    finally show ?thesis using d2 by (simp add: e)
  qed
  have sat: "chain_sat b (x # xs) vs2"
    using sboxes_sat_agree[OF t2' mn' sf' s1] s2 by (simp add: x)
  have out: "states_fit (chain_end b (x # xs)) (chain_out st (x # xs))"
    using f2 by (simp add: x)
  show ?case
    by (rule exI[of _ vs2]) (intro conjI run len tk dr sat out)
qed

lemma lc_val_var:
  "1 \<le> v \<Longrightarrow> v \<le> length (pb_values pb) \<Longrightarrow> lc_val pb (lc_of_var v) = Inr (pb_values pb ! (v - 1))"
  by (simp add: lc_val_fits lc_of_var_def var_value_def)

lemma lc_val_ONE: "lc_val pb (lc_of_var ONE) = Inr 1"
  by (simp add: lc_val_fits lc_of_var_def ONE_def)

lemma lc_val_sbox_input:
  assumes "h < nI \<Longrightarrow> lc_fits (length (pb_values pb)) (state r ! h)"
  shows "lc_val pb (sbox_input nI r h) = Inr (sbox_value nI r (pb_values pb) h)"
proof (cases "h < nI")
  case True
  have "lc_fits (length (pb_values pb)) (lc_plus (state r ! h) (lc_of_field (C_i r)))"
    using assms[OF True] by (intro lc_fits_plus) (simp_all add: lc_of_field_def ONE_def)
  then show ?thesis
    using True by (simp add: sbox_input_def sbox_value_def lc_val_fits lc_sum_plus lc_of_field_def ONE_def)
next
  case False
  then show ?thesis
    by (simp add: sbox_input_def sbox_value_def lc_val_fits lc_of_field_def ONE_def)
qed

lemma sbox_constraints_sat:
  fixes pb :: "'f::field protoboard"
  assumes sat: "sbox_sat b nI r (pb_values pb) h"
    and room: "b + 3 * h + 3 \<le> length (pb_values pb)"
    and fit: "h < nI \<Longrightarrow> lc_fits b (state r ! h)"
    and c: "c \<in> set (sbox_constraints (sbox_at b h) (sbox_input nI r h))"
  shows "r1cs_satisfied pb c"
proof -
  have "h < nI \<Longrightarrow> lc_fits (length (pb_values pb)) (state r ! h)"
    using fit room by (auto intro: lc_fits_mono[where n = b])
  then have x: "lc_val pb (sbox_input nI r h) = Inr (sbox_value nI r (pb_values pb) h)"
    by (rule lc_val_sbox_input)
  from c consider
      "c = ConstraintT (sbox_input nI r h) (sbox_input nI r h) (lc_of_var (b + 3 * h + 1))"
    | "c = ConstraintT (lc_of_var (b + 3 * h + 1)) (lc_of_var (b + 3 * h + 1)) (lc_of_var (b + 3 * h + 2))"
    | "c = ConstraintT (sbox_input nI r h) (lc_of_var (b + 3 * h + 2)) (lc_of_var (b + 3 * h + 3))"
    by (auto simp: sbox_constraints_def sbox_at_def)
  then show ?thesis
  proof cases
    case 1
    then show ?thesis using sat room by (simp add: r1cs_satisfied_def x lc_val_var sbox_sat_def)
  next
    case 2
    then show ?thesis using sat room by (simp add: r1cs_satisfied_def lc_val_var sbox_sat_def)
  next
    case 3
    then show ?thesis using sat room
      by (simp add: r1cs_satisfied_def x lc_val_var sbox_sat_def mult.commute)
  qed
qed

lemma round_constraints_sat:
  fixes pb :: "'f::field protoboard"
  assumes sb: "sboxes r = map (sbox_at b) [0 ..< nS]"
    and st: "min nS nI \<le> length (state r)" "states_fit b (state r)"
    and len: "b + 3 * nS \<le> length (pb_values pb)"
    and sat: "sboxes_sat b nS nI r (pb_values pb)"
    and c: "c \<in> set (round_constraints nS nI r)"
  shows "r1cs_satisfied pb c"
proof -
  from c obtain h where h: "h < nS" and c': "c \<in> set (sbox_constraints (sboxes r ! h) (sbox_input nI r h))"
    by (auto simp: round_constraints_def)
  have s: "sboxes r ! h = sbox_at b h" using h by (simp add: sb)
  have 1: "sbox_sat b nI r (pb_values pb) h" using sat h by (simp add: sboxes_sat_def)
  have 2: "b + 3 * h + 3 \<le> length (pb_values pb)" using len h by simp
  have 3: "h < nI \<Longrightarrow> lc_fits b (state r ! h)"
    using h st by (simp add: states_fit_def list_all_length)
  have 4: "c \<in> set (sbox_constraints (sbox_at b h) (sbox_input nI r h))"
    using c' by (simp only: s)
  show ?thesis by (rule sbox_constraints_sat[OF 1 2 _ 4]) (rule 3)
qed

lemma chain_constraints_Cons:
  "chain_constraints ((nS, nI, nO, r) # xs) = round_constraints nS nI r @ chain_constraints xs"
  by (simp add: chain_constraints_def)

lemma chain_constraints_sat:
  fixes pb :: "'f::field protoboard"
  assumes "chain t in_M b st xs" and "states_fit b st"
    and "chain_end b xs \<le> length (pb_values pb)"
    and "chain_sat b xs (pb_values pb)"
    and "c \<in> set (chain_constraints xs)"
  shows "r1cs_satisfied pb c"
  using assms
proof (induction xs arbitrary: b st)
  case Nil
  then show ?case by (simp add: chain_constraints_def)
next
  case (Cons x xs)
  obtain nS nI nO r where x: "x = (nS, nI, nO, r)" by (cases x)
  from Cons.prems(1) have ok: "round_ok t nS nI nO (length st)"
    and mn: "min nS nI \<le> length st"
    and r: "r = round_at t nS nI nO b (C_i r) in_M st"
    and ch: "chain t in_M (b + 3 * nS) (outputs r) xs"
    by (simp_all add: x)
  note sel = round_at_sel[OF r]
  have sb: "sboxes r = map (sbox_at b) [0 ..< nS]" and str: "state r = st" using sel by simp_all
  have e: "chain_end b (x # xs) = chain_end (b + 3 * nS) xs" by (simp add: x)
  have ge: "b + 3 * nS \<le> chain_end (b + 3 * nS) xs" by (rule chain_end_ge)
  have room: "b + 3 * nS \<le> length (pb_values pb)" using Cons.prems(3) ge by (simp add: e)
  have room': "chain_end (b + 3 * nS) xs \<le> length (pb_values pb)" using Cons.prems(3) by (simp add: e)
  have mn': "min nS nI \<le> length (state r)" and sf': "states_fit b (state r)"
    using mn Cons.prems(2) by (simp_all add: str)
  have fit: "states_fit (b + 3 * nS) (outputs r)"
    using states_fit_round_at[OF Cons.prems(2) ok, of "C_i r" in_M] r by simp
  have s1: "sboxes_sat b nS nI r (pb_values pb)" and s2: "chain_sat (b + 3 * nS) xs (pb_values pb)"
    using Cons.prems(4) by (simp_all add: x)
  from Cons.prems(5) consider "c \<in> set (round_constraints nS nI r)" | "c \<in> set (chain_constraints xs)"
    by (auto simp: x chain_constraints_Cons)
  then show ?case
  proof cases
    case 1
    show ?thesis by (rule round_constraints_sat[OF sb mn' sf' room s1 1])
  next
    case 2
    show ?thesis by (rule Cons.IH[OF ch fit room' s2 2])
  qed
qed

lemma chain_sat_agree:
  assumes "chain t in_M b st xs" and "states_fit b st"
    and "take (chain_end b xs) vs = take (chain_end b xs) vs'"
    and "chain_sat b xs vs"
  shows "chain_sat b xs vs'"
  using assms
proof (induction xs arbitrary: b st)
  case Nil
  then show ?case by simp
next
  case (Cons x xs)
  obtain nS nI nO r where x: "x = (nS, nI, nO, r)" by (cases x)
  from Cons.prems(1) have ok: "round_ok t nS nI nO (length st)"
    and mn: "min nS nI \<le> length st"
    and r: "r = round_at t nS nI nO b (C_i r) in_M st"
    and ch: "chain t in_M (b + 3 * nS) (outputs r) xs"
    by (simp_all add: x)
  note sel = round_at_sel[OF r]
  have str: "state r = st" using sel by simp
  have e: "chain_end b (x # xs) = chain_end (b + 3 * nS) xs" by (simp add: x)
  have ge: "b + 3 * nS \<le> chain_end (b + 3 * nS) xs" by (rule chain_end_ge)
  have tk: "take (chain_end (b + 3 * nS) xs) vs = take (chain_end (b + 3 * nS) xs) vs'"
    using Cons.prems(3) by (simp add: e)
  have tk1: "take (b + 3 * nS) vs = take (b + 3 * nS) vs'"
    by (rule take_take_le[OF ge tk])
  have mn': "min nS nI \<le> length (state r)" and sf': "states_fit b (state r)"
    using mn Cons.prems(2) by (simp_all add: str)
  have fit: "states_fit (b + 3 * nS) (outputs r)"
    using states_fit_round_at[OF Cons.prems(2) ok, of "C_i r" in_M] r by simp
  have s1: "sboxes_sat b nS nI r vs" and s2: "chain_sat (b + 3 * nS) xs vs"
    using Cons.prems(4) by (simp_all add: x)
  have "sboxes_sat b nS nI r vs'" by (rule sboxes_sat_agree[OF tk1 mn' sf' s1])
  moreover have "chain_sat (b + 3 * nS) xs vs'" by (rule Cons.IH[OF ch fit tk s2])
  ultimately show ?case by (simp add: x)
qed

lemma output_witness_loop_aux:
  fixes pb :: "'f::field protoboard"
  assumes fit: "\<And>n. n < length os \<Longrightarrow> lc_fits E (os ! n)"
    and ovs: "\<And>n. n < length os \<Longrightarrow> n < length ov \<and> ov ! n = E + 1 + n"
    and len: "E + length os \<le> length (pb_values pb)"
    and k: "k \<le> length os"
  shows "\<exists>vs'. foldM (\<lambda>n pb. ebind (lc_val pb (os ! n)) (\<lambda>x.
                        ebind (nth_err ov n) (\<lambda>v. pb_set_val v x pb))) [0 ..< k] pb
                  = Inr (pb\<lparr>pb_values := vs'\<rparr>) \<and>
           length vs' = length (pb_values pb) \<and>
           take E vs' = take E (pb_values pb) \<and>
           (\<forall>n. n < k \<longrightarrow> vs' ! (E + n) = lc_sum (pb_values pb) (os ! n))"
  using k
proof (induction k)
  case 0
  have "pb\<lparr>pb_values := pb_values pb\<rparr> = pb" by simp
  then show ?case by (intro exI[of _ "pb_values pb"]) simp
next
  case (Suc k)
  let ?f = "\<lambda>n pb. ebind (lc_val pb (os ! n)) (\<lambda>x.
                        ebind (nth_err ov n) (\<lambda>v. pb_set_val v x pb))"
  have kle: "k \<le> length os" and kl: "k < length os" using Suc.prems by simp_all
  from Suc.IH[OF kle] obtain vs1 where
    run: "foldM ?f [0 ..< k] pb = Inr (pb\<lparr>pb_values := vs1\<rparr>)"
    and l1: "length vs1 = length (pb_values pb)"
    and t1: "take E vs1 = take E (pb_values pb)"
    and s1: "\<forall>n. n < k \<longrightarrow> vs1 ! (E + n) = lc_sum (pb_values pb) (os ! n)"
    by (elim exE conjE)
  let ?pb1 = "pb\<lparr>pb_values := vs1\<rparr>"
  define x where "x = lc_sum (pb_values pb) (os ! k)"
  have "lc_fits (length (pb_values ?pb1)) (os ! k)"
    by (rule lc_fits_mono[OF fit[OF kl]]) (use len in \<open>simp add: l1\<close>)
  then have "lc_val ?pb1 (os ! k) = Inr (lc_sum vs1 (os ! k))"
    by (simp add: lc_val_fits)
  also have "lc_sum vs1 (os ! k) = x"
    unfolding x_def by (rule lc_sum_agree[OF t1 fit[OF kl]])
  finally have val: "lc_val ?pb1 (os ! k) = Inr x" .
  have v: "nth_err ov k = Inr (E + 1 + k)" using ovs[OF kl] by (simp add: nth_err_def)
  define vs2 where "vs2 = vs1[E + k := x]"
  have set: "pb_set_val (E + 1 + k) x ?pb1 = Inr (pb\<lparr>pb_values := vs2\<rparr>)"
    using len kl by (simp add: pb_set_val_def l1 vs2_def)
  have step: "?f k ?pb1 = Inr (pb\<lparr>pb_values := vs2\<rparr>)"
    by (simp only: val v ebind_Inr set)
  have run2: "foldM ?f [0 ..< Suc k] pb = Inr (pb\<lparr>pb_values := vs2\<rparr>)"
    by (simp add: foldM_snoc run step)
  have l2: "length vs2 = length (pb_values pb)" by (simp add: vs2_def l1)
  have t2: "take E vs2 = take E (pb_values pb)" using t1 by (simp add: vs2_def)
  have all: "\<forall>n. n < Suc k \<longrightarrow> vs2 ! (E + n) = lc_sum (pb_values pb) (os ! n)"
  proof (intro allI impI)
    fix n assume "n < Suc k"
    then consider "n < k" | "n = k" by linarith
    then show "vs2 ! (E + n) = lc_sum (pb_values pb) (os ! n)"
    proof cases
      case 1
      then show ?thesis using s1 by (simp add: vs2_def)
    next
      case 2
      then show ?thesis using len kl by (simp add: vs2_def l1 x_def)
    qed
  qed
  show ?case
    by (rule exI[of _ vs2]) (intro conjI run2 l2 t2 all)
qed

lemma output_witness_loop_ok:
  fixes pb :: "'f::field protoboard"
  assumes fit: "states_fit E (outputs (last_round m))"
    and ovs: "output_vars m = [E + 1 ..< E + 1 + length (outputs (last_round m))]"
    and len: "E + length (outputs (last_round m)) \<le> length (pb_values pb)"
  shows "\<exists>vs'. output_witness_loop m pb = Inr (pb\<lparr>pb_values := vs'\<rparr>) \<and>
           length vs' = length (pb_values pb) \<and>
           take E vs' = take E (pb_values pb) \<and>
           (\<forall>n. n < length (outputs (last_round m)) \<longrightarrow>
              vs' ! (E + n) = lc_sum (pb_values pb) (outputs (last_round m) ! n))"
proof -
  have 1: "lc_fits E (outputs (last_round m) ! n)" if "n < length (outputs (last_round m))" for n
    using fit that by (simp add: states_fit_def list_all_length)
  have 2: "n < length (output_vars m) \<and> output_vars m ! n = E + 1 + n"
    if "n < length (outputs (last_round m))" for n
  proof -
    have "E + 1 + n < E + 1 + length (outputs (last_round m))" using that by simp
    then have "[E + 1 ..< E + 1 + length (outputs (last_round m))] ! n = E + 1 + n"
      by (rule nth_upt)
    moreover have "length [E + 1 ..< E + 1 + length (outputs (last_round m))]
        = length (outputs (last_round m))"
      by (simp only: length_upt add_diff_cancel_left')
    ultimately show ?thesis using that by (simp only: ovs simp_thms)
  qed
  show ?thesis
    unfolding output_witness_loop_def
    by (rule output_witness_loop_aux[OF 1 2 len order_refl])
qed

lemma output_constraints_sat:
  fixes pb :: "'f::field protoboard"
  assumes fit: "states_fit E (outputs (last_round m))"
    and ovs: "output_vars m = [E + 1 ..< E + 1 + length (outputs (last_round m))]"
    and len: "E + length (outputs (last_round m)) \<le> length (pb_values pb)"
    and vals: "\<And>n. n < length (outputs (last_round m)) \<Longrightarrow>
                 pb_values pb ! (E + n) = lc_sum (pb_values pb) (outputs (last_round m) ! n)"
    and c: "c \<in> set (output_constraints m)"
  shows "r1cs_satisfied pb c"
proof -
  from c obtain i where i: "i < length (outputs (last_round m))"
    and c': "c = ConstraintT (outputs (last_round m) ! i) (lc_of_var ONE) (lc_of_var (output_vars m ! i))"
    by (auto simp: output_constraints_def)
  have fi: "lc_fits E (outputs (last_round m) ! i)"
    using fit i by (simp add: states_fit_def list_all_length)
  have "lc_fits (length (pb_values pb)) (outputs (last_round m) ! i)"
    by (rule lc_fits_mono[OF fi]) (use len in simp)
  then have a: "lc_val pb (outputs (last_round m) ! i) = Inr (lc_sum (pb_values pb) (outputs (last_round m) ! i))"
    by (rule lc_val_fits)
  have "E + 1 + i < E + 1 + length (outputs (last_round m))" using i by simp
  then have "[E + 1 ..< E + 1 + length (outputs (last_round m))] ! i = E + 1 + i"
    by (rule nth_upt)
  then have ov: "output_vars m ! i = E + 1 + i" by (simp only: ovs)
  have cv: "lc_val pb (lc_of_var (E + 1 + i)) = Inr (pb_values pb ! (E + i))"
    using len i by (simp add: lc_val_var)
  show ?thesis
    unfolding c' ov by (simp add: r1cs_satisfied_def a lc_val_ONE cv vals[OF i] del: One_nat_def)
qed

lemma ebind_assoc: "ebind (ebind m f) g = ebind m (\<lambda>x. ebind (f x) g)"
  by (cases m) simp_all

lemma foldM_Cons_ebind: "foldM f (x # xs) s = ebind (f x s) (foldM f xs)"
  by (simp add: ebind_def)

lemma foldM_map: "foldM f (map g xs) s = foldM (\<lambda>x. f (g x)) xs s"
  by (induction xs arbitrary: s) (simp_all split: sum.splits)

lemma chain_witness_append:
  "chain_witness (xs @ ys) pb = ebind (chain_witness xs pb) (chain_witness ys)"
  by (simp add: chain_witness_def foldM_append)

lemma chain_witness_map:
  "chain_witness (map (\<lambda>r. (nS, nI, nO, r)) rs) pb = foldM (round_generate_r1cs_witness nS nI) rs pb"
  by (simp add: chain_witness_def foldM_map)

lemma chain_witness_single:
  "chain_witness [(nS, nI, nO, r)] pb = round_generate_r1cs_witness nS nI r pb"
  by (simp add: chain_witness_def split: sum.splits)

lemma ebind_cong_fun: "(\<And>x. f x = g x) \<Longrightarrow> ebind m f = ebind m g"
  by (cases m) simp_all

lemma master_generate_r1cs_witness_chain:
  "master_generate_r1cs_witness prm m pb =
     ebind (chain_witness (tagged_rounds prm m) pb) (\<lambda>pb5.
       if constrainOutputs prm then output_witness_loop m pb5 else Inr pb5)"
  unfolding master_generate_r1cs_witness_def tagged_rounds_def Let_def chain_witness_Cons
    ebind_assoc
  apply (rule ebind_cong_fun)
  unfolding chain_witness_append ebind_assoc chain_witness_map
  apply (rule ebind_cong_fun)
  apply (rule ebind_cong_fun)
  apply (rule ebind_cong_fun)
  unfolding chain_witness_single
  apply (rule refl)
  done

lemma chain_out_tagged: "chain_out st (tagged_rounds prm m) = outputs (last_round m)"
  by (simp add: tagged_rounds_def chain_out_append)

lemma states_fit_inputs:
  "(\<And>v. v \<in> set ins \<Longrightarrow> v \<le> b) \<Longrightarrow> states_fit b (VariableArrayT_to_lc ins)"
  by (simp add: states_fit_def VariableArrayT_to_lc_def list_all_iff lc_of_var_def)

lemma update_twice: "pb\<lparr>pb_values := vs1\<rparr>\<lparr>pb_values := vs2\<rparr> = pb\<lparr>pb_values := vs2\<rparr>"
  by simp

lemma master_witness_sound:
  fixes pb pbw :: "'f::field protoboard"
  assumes mi: "Master_init prm ks pb ins = Inr (m, pb1)"
    and len: "min (param_t prm) (nInputs prm) \<le> length ins"
    and ins: "\<And>v. v \<in> set ins \<Longrightarrow> v \<le> num_variables pb"
    and l: "length (pb_values pbw) = num_variables pb1"
  shows "\<exists>vs'. master_generate_r1cs_witness prm m pbw = Inr (pbw\<lparr>pb_values := vs'\<rparr>) \<and>
           length vs' = length (pb_values pbw) \<and>
           take (num_variables pb) vs' = take (num_variables pb) (pb_values pbw) \<and>
           (\<forall>c. c \<in> set (master_constraints prm m) \<longrightarrow> r1cs_satisfied (pbw\<lparr>pb_values := vs'\<rparr>) c)"
proof -
  define b where "b = num_variables pb"
  define xs where "xs = tagged_rounds prm m"
  define E where "E = chain_end b xs"
  define st :: "'f linear_combination list" where "st = VariableArrayT_to_lc ins"
  define os where "os = outputs (last_round m)"
  have ch: "chain (param_t prm) (M ks) b st xs"
    unfolding b_def st_def xs_def using mi len by (rule Master_init_chain(1))
  have nv: "num_variables pb1 = E + (if constrainOutputs prm then nOutputs prm else 0)"
    unfolding E_def b_def xs_def using mi len by (rule Master_init_chain(2))
  have ov: "output_vars m = (if constrainOutputs prm then [E + 1 ..< E + 1 + nOutputs prm] else [])"
    unfolding E_def b_def xs_def using mi len by (rule Master_init_chain(3))
  have lo: "length os = nOutputs prm"
    unfolding os_def using mi by (rule Master_init_lengths(7))
  have sf: "states_fit b st"
    unfolding st_def b_def using ins by (rule states_fit_inputs)
  have bE: "b \<le> E" unfolding E_def by (rule chain_end_ge)
  have room: "chain_end b xs \<le> length (pb_values pbw)"
    using l nv by (simp add: E_def)
  from chain_witness_ok[OF ch sf room] obtain vs1 where
    run1: "chain_witness xs pbw = Inr (pbw\<lparr>pb_values := vs1\<rparr>)"
    and l1: "length vs1 = length (pb_values pbw)"
    and t1: "take b vs1 = take b (pb_values pbw)"
    and sat1: "chain_sat b xs vs1"
    and fit1: "states_fit (chain_end b xs) (chain_out st xs)"
    by blast
  let ?pb1 = "pbw\<lparr>pb_values := vs1\<rparr>"
  have fit: "states_fit E (outputs (last_round m))"
    using fit1 by (simp add: E_def xs_def chain_out_tagged)
  have run: "master_generate_r1cs_witness prm m pbw
      = (if constrainOutputs prm then output_witness_loop m ?pb1 else Inr ?pb1)"
    using run1 by (simp add: master_generate_r1cs_witness_chain xs_def)
  show ?thesis
  proof (cases "constrainOutputs prm")
    case False
    have r: "master_generate_r1cs_witness prm m pbw = Inr ?pb1" using run False by simp
    have mc: "master_constraints prm m = chain_constraints xs"
      using False by (simp add: master_constraints_def xs_def)
    have room1: "chain_end b xs \<le> length (pb_values ?pb1)" using room l1 by simp
    have sat1': "chain_sat b xs (pb_values ?pb1)" using sat1 by simp
    have "r1cs_satisfied ?pb1 c" if "c \<in> set (master_constraints prm m)" for c
      using that unfolding mc by (rule chain_constraints_sat[OF ch sf room1 sat1'])
    then have all: "\<forall>c. c \<in> set (master_constraints prm m) \<longrightarrow> r1cs_satisfied ?pb1 c" by blast
    have t1': "take (num_variables pb) vs1 = take (num_variables pb) (pb_values pbw)"
      using t1 by (simp only: b_def)
    show ?thesis
      by (rule exI[of _ vs1]) (intro conjI r l1 t1' all)
  next
    case True
    have ovs: "output_vars m = [E + 1 ..< E + 1 + length (outputs (last_round m))]"
      using ov True lo by (simp only: os_def if_True)
    have len1: "E + length (outputs (last_round m)) \<le> length (pb_values ?pb1)"
      using l nv True lo by (simp add: l1 os_def)
    from output_witness_loop_ok[OF fit ovs len1] obtain vs2 where
      run2: "output_witness_loop m ?pb1 = Inr (?pb1\<lparr>pb_values := vs2\<rparr>)"
      and l2: "length vs2 = length (pb_values ?pb1)"
      and t2: "take E vs2 = take E (pb_values ?pb1)"
      and vals: "\<forall>n. n < length (outputs (last_round m)) \<longrightarrow>
              vs2 ! (E + n) = lc_sum (pb_values ?pb1) (outputs (last_round m) ! n)"
      by blast
    let ?pb2 = "pbw\<lparr>pb_values := vs2\<rparr>"
    have r: "master_generate_r1cs_witness prm m pbw = Inr ?pb2"
      using run True run2 by (simp only: if_True update_twice)
    have len2: "length vs2 = length (pb_values pbw)" using l2 l1 by simp
    have t21: "take E vs1 = take E vs2" using t2 by simp
    have tb: "take (num_variables pb) vs2 = take (num_variables pb) (pb_values pbw)"
      using take_take_le[OF bE t21] t1 by (simp add: b_def)
    have mc: "master_constraints prm m = chain_constraints xs @ output_constraints m"
      using True by (simp add: master_constraints_def xs_def)
    have room2: "chain_end b xs \<le> length (pb_values ?pb2)" using room len2 by simp
    have "chain_sat b xs vs2"
      using t21 sat1 unfolding E_def by (rule chain_sat_agree[OF ch sf])
    then have sat2: "chain_sat b xs (pb_values ?pb2)" by simp
    have len2': "E + length (outputs (last_round m)) \<le> length (pb_values ?pb2)"
      using len1 l2 by simp
    have vals2: "pb_values ?pb2 ! (E + n) = lc_sum (pb_values ?pb2) (outputs (last_round m) ! n)"
      if "n < length (outputs (last_round m))" for n
    proof -
      have "lc_fits E (outputs (last_round m) ! n)"
        using fit that by (simp add: states_fit_def list_all_length)
      then have "lc_sum vs1 (outputs (last_round m) ! n) = lc_sum vs2 (outputs (last_round m) ! n)"
        by (rule lc_sum_agree[OF t21])
      then show ?thesis using vals that by simp
    qed
    have "r1cs_satisfied ?pb2 c" if "c \<in> set (master_constraints prm m)" for c
    proof -
      from that consider "c \<in> set (chain_constraints xs)" | "c \<in> set (output_constraints m)"
        unfolding mc by auto
      then show ?thesis
      proof cases
        case 1
        show ?thesis by (rule chain_constraints_sat[OF ch sf room2 sat2 1])
      next
        case 2
        show ?thesis by (rule output_constraints_sat[OF fit ovs len2' vals2 2])
      qed
    qed
    then have all: "\<forall>c. c \<in> set (master_constraints prm m) \<longrightarrow> r1cs_satisfied ?pb2 c" by blast
    show ?thesis
      by (rule exI[of _ vs2]) (intro conjI r len2 tb all)
  qed
qed

text \<open>
  Claim C1.  Take a master that was constructed over the input variables \<open>ins\<close>
  (\<open>nInputs\<close> of them, all variables of the board it was built on) and whose
  \<open>generate_r1cs_constraints\<close> has run.  Whatever the witness table \<open>vs\<close> of the
  board holds when \<open>generate_r1cs_witness\<close> starts, hence for every vector of
  input values, \<open>generate_r1cs_witness\<close> returns, it leaves the constraints and
  the values of the input variables as they were, and under the table it
  produces every constraint \<open>(A, B, C)\<close> that \<open>generate_r1cs_constraints\<close> emitted
  can be evaluated and has \<open>eval A * eval B = eval C\<close>.
\<close>

theorem witness_soundness:
  fixes pb :: "'f::field protoboard"
  assumes "Master_Poseidon_gadget_T be prm pb ins = Inr (m, pb1)"
    and "master_generate_r1cs_constraints prm m pb1 = Inr pb2"
    and "length ins = nInputs prm"
    and "\<forall>v \<in> set ins. v \<le> num_variables pb"
    and "length vs = num_variables pb2"
  shows "\<exists>pb3. master_generate_r1cs_witness prm m (pb2\<lparr>pb_values := vs\<rparr>) = Inr pb3 \<and>
           pb_constraints pb3 = pb_constraints pb2 \<and>
           map (var_value (pb_values pb3)) ins = map (var_value vs) ins \<and>
           (\<forall>c \<in> set (drop (length (pb_constraints pb1)) (pb_constraints pb3)).
              r1cs_satisfied pb3 c)"
proof -
  from assms(1) obtain ks where mi: "Master_init prm ks pb ins = Inr (m, pb1)"
    by (rule Master_T_Inr_D)
  have len: "min (param_t prm) (nInputs prm) \<le> length ins" using assms(3) by simp
  have "master_generate_r1cs_constraints prm m pb1 = Inr (emit (master_constraints prm m) pb1)"
    using mi len by (rule master_generate_r1cs_constraints_ok)
  with assms(2) have pb2: "pb2 = emit (master_constraints prm m) pb1" by simp
  let ?pbw = "pb2\<lparr>pb_values := vs\<rparr>"
  have l: "length (pb_values ?pbw) = num_variables pb1"
    using assms(5) by (simp add: pb2 emit_def num_variables_def)
  have ins: "v \<le> num_variables pb" if "v \<in> set ins" for v using assms(4) that by blast
  from master_witness_sound[OF mi len ins l] obtain vs' where
    run: "master_generate_r1cs_witness prm m ?pbw = Inr (?pbw\<lparr>pb_values := vs'\<rparr>)"
    and tk: "take (num_variables pb) vs' = take (num_variables pb) (pb_values ?pbw)"
    and sat: "\<forall>c. c \<in> set (master_constraints prm m) \<longrightarrow> r1cs_satisfied (?pbw\<lparr>pb_values := vs'\<rparr>) c"
    by blast
  let ?pb3 = "?pbw\<lparr>pb_values := vs'\<rparr>"
  have c3: "pb_constraints ?pb3 = pb_constraints pb2" by simp
  have "var_value vs' v = var_value vs v" if "v \<in> set ins" for v
    using tk ins[OF that] by (intro var_value_agree[where b = "num_variables pb"]) simp_all
  then have inp: "map (var_value (pb_values ?pb3)) ins = map (var_value vs) ins" by simp
  have "drop (length (pb_constraints pb1)) (pb_constraints ?pb3) = master_constraints prm m"
    by (simp add: pb2 emit_def)
  then have all: "\<forall>c \<in> set (drop (length (pb_constraints pb1)) (pb_constraints ?pb3)).
      r1cs_satisfied ?pb3 c"
    using sat by simp
  show ?thesis
    by (rule exI[of _ ?pb3]) (intro conjI run c3 inp all)
qed

theorem witness_soundness_witness:
  "\<exists>m pb1 pb2 pb3.
     Master_Poseidon_gadget_T example_backend (Poseidon128 1 1 True) (grow 1 protoboard_new) [1]
       = Inr (m, pb1 :: rat protoboard) \<and>
     master_generate_r1cs_constraints (Poseidon128 1 1 True) m pb1 = Inr pb2 \<and>
     master_generate_r1cs_witness (Poseidon128 1 1 True) m
       (pb2\<lparr>pb_values := 5 # replicate (num_variables pb2 - 1) 0\<rparr>) = Inr pb3 \<and>
     length (pb_constraints pb3) = 316 \<and>
     var_value (pb_values pb3) 1 = 5 \<and>
     list_all (r1cs_satisfied pb3) (pb_constraints pb3)"
proof -
  let ?prm = "Poseidon128 1 1 True"
  let ?pb = "grow 1 protoboard_new :: rat protoboard"
  have "\<exists>m pb'. Master_Poseidon_gadget_T example_backend ?prm ?pb [1] = Inr (m, pb')"
    by (rule Master_T_ok) (simp_all add: Poseidon128_def)
  then obtain m and pb1 :: "rat protoboard" where
    eq: "Master_Poseidon_gadget_T example_backend ?prm ?pb [1] = Inr (m, pb1)"
    by blast
  then obtain ks where mi: "Master_init ?prm ks ?pb [1] = Inr (m, pb1)"
    by (rule Master_T_Inr_D)
  define pb2 where "pb2 = emit (master_constraints ?prm m) pb1"
  have gen: "master_generate_r1cs_constraints ?prm m pb1 = Inr pb2"
    unfolding pb2_def
    by (rule master_generate_r1cs_constraints_ok[OF mi]) (simp add: Poseidon128_def)
  have co: "constrainOutputs ?prm" by (simp add: Poseidon128_def)
  have n: "length (pb_constraints pb2) = 316"
    using master_constraints_total[OF eq gen co]
    by (simp add: Poseidon128_def protoboard_new_def grow_def)
  have c1: "pb_constraints pb1 = []"
    using Master_init_lengths(9)[OF mi] by (simp add: protoboard_new_def grow_def)
  obtain k where "pb1 = grow k ?pb" using Master_init_chain(4)[OF mi] by (auto simp: Poseidon128_def)
  then have nv: "0 < num_variables pb2"
    by (simp add: pb2_def emit_def num_variables_def grow_def)
  define vs :: "rat list" where "vs = 5 # replicate (num_variables pb2 - 1) 0"
  have h3: "length [1 :: nat] = nInputs ?prm" by (simp add: Poseidon128_def)
  have h4: "\<forall>v \<in> set [1 :: nat]. v \<le> num_variables ?pb"
    by (simp add: grow_def num_variables_def)
  have h5: "length vs = num_variables pb2" using nv by (simp add: vs_def)
  from witness_soundness[OF eq gen h3 h4 h5] obtain pb3 where
    run: "master_generate_r1cs_witness ?prm m (pb2\<lparr>pb_values := vs\<rparr>) = Inr pb3"
    and c3: "pb_constraints pb3 = pb_constraints pb2"
    and inp: "map (var_value (pb_values pb3)) [1] = map (var_value vs) [1]"
    and sat: "\<forall>c \<in> set (drop (length (pb_constraints pb1)) (pb_constraints pb3)). r1cs_satisfied pb3 c"
    by blast
  have a: "length (pb_constraints pb3) = 316" using n c3 by simp
  have b: "var_value (pb_values pb3) 1 = 5" using inp by (simp add: vs_def var_value_def)
  have c: "list_all (r1cs_satisfied pb3) (pb_constraints pb3)"
    using sat by (simp add: c1 list_all_iff)
  show ?thesis
    using eq gen run a b c unfolding vs_def by blast
qed

section \<open>Witness generation of an instance and the statics\<close>

lemma foldM_preserves:
  assumes "\<And>i s s'. f i s = Inr s' \<Longrightarrow> P s \<Longrightarrow> P s'"
    and "foldM f is s = Inr s'" and "P s"
  shows "P s'"
  using assms(2,3)
proof (induction "is" arbitrary: s)
  case Nil
  then show ?case by simp
next
  case (Cons i "is")
  from Cons.prems(1) obtain s1 where s1: "f i s = Inr s1" and rest: "foldM f is s1 = Inr s'"
    by (auto split: sum.splits)
  have "P s1" using s1 Cons.prems(2) by (rule assms(1))
  with rest show ?case by (rule Cons.IH)
qed

lemma same_shape_refl [simp]: "same_shape pb pb"
  by (simp add: same_shape_def)

lemma pb_set_val_shape:
  "pb_set_val v x s = Inr s' \<Longrightarrow> same_shape pb s \<Longrightarrow> same_shape pb s'"
  by (auto simp: pb_set_val_def same_shape_def split: if_splits)

lemma fp_generate_r1cs_witness_shape:
  assumes "fp_generate_r1cs_witness g v s = Inr s'" and "same_shape pb s"
  shows "same_shape pb s'"
proof -
  from assms(1) obtain s1 s2 where
    1: "pb_set_val (x2 g) (v * v) s = Inr s1"
    and 2: "pb_set_val (x4 g) ((v * v) * (v * v)) s1 = Inr s2"
    and 3: "pb_set_val (x5 g) ((v * v) * (v * v) * v) s2 = Inr s'"
    by (auto simp: fp_generate_r1cs_witness_def Let_def ebind_eq_Inr)
  from 1 assms(2) have "same_shape pb s1" by (rule pb_set_val_shape)
  with 2 have "same_shape pb s2" by (rule pb_set_val_shape)
  with 3 show ?thesis by (rule pb_set_val_shape)
qed

lemma round_generate_r1cs_witness_shape:
  assumes "round_generate_r1cs_witness nS nI r s = Inr s'" and "same_shape pb s"
  shows "same_shape pb s'"
  using assms unfolding round_generate_r1cs_witness_def
proof (rule foldM_preserves[rotated])
  fix h and t t' :: "'a protoboard"
  assume run: "ebind (if h < nI
                 then ebind (nth_err (state r) h) (\<lambda>st. ebind (lc_val t st) (\<lambda>v. Inr (C_i r + v)))
                 else Inr (C_i r)) (\<lambda>val.
               ebind (nth_err (sboxes r) h) (\<lambda>g. fp_generate_r1cs_witness g val t)) = Inr t'"
    and sh: "same_shape pb t"
  from run obtain val g where "fp_generate_r1cs_witness g val t = Inr t'"
    by (auto simp: ebind_eq_Inr)
  then show "same_shape pb t'" using sh by (rule fp_generate_r1cs_witness_shape)
qed

lemma rounds_generate_r1cs_witness_shape:
  assumes "foldM (round_generate_r1cs_witness nS nI) rs s = Inr s'" and "same_shape pb s"
  shows "same_shape pb s'"
  using assms
  by (rule foldM_preserves[rotated]) (rule round_generate_r1cs_witness_shape)

lemma output_witness_loop_shape:
  assumes "output_witness_loop m s = Inr s'" and "same_shape pb s"
  shows "same_shape pb s'"
  using assms unfolding output_witness_loop_def
proof (rule foldM_preserves[rotated])
  fix n and t t' :: "'a protoboard"
  assume run: "ebind (lc_val t (outputs (last_round m) ! n)) (\<lambda>x.
                 ebind (nth_err (output_vars m) n) (\<lambda>v. pb_set_val v x t)) = Inr t'"
    and sh: "same_shape pb t"
  from run obtain x v where "pb_set_val v x t = Inr t'"
    by (auto simp: ebind_eq_Inr)
  then show "same_shape pb t'" using sh by (rule pb_set_val_shape)
qed

lemma master_generate_r1cs_witness_shape:
  assumes "master_generate_r1cs_witness prm m s = Inr s'"
  shows "same_shape s s'"
proof -
  from assms obtain s1 s2 s3 s4 s5 where
    1: "round_generate_r1cs_witness (param_t prm) (nInputs prm) (first_round m) s = Inr s1"
    and 2: "foldM (round_generate_r1cs_witness (param_t prm) (param_t prm)) (prefix_full_rounds m) s1 = Inr s2"
    and 3: "foldM (round_generate_r1cs_witness (param_c prm) (param_t prm)) (partial_rounds m) s2 = Inr s3"
    and 4: "foldM (round_generate_r1cs_witness (param_t prm) (param_t prm)) (suffix_full_rounds m) s3 = Inr s4"
    and 5: "round_generate_r1cs_witness (param_t prm) (param_t prm) (last_round m) s4 = Inr s5"
    and 6: "(if constrainOutputs prm then output_witness_loop m s5 else Inr s5) = Inr s'"
    unfolding master_generate_r1cs_witness_def Let_def ebind_eq_Inr by blast
  have "same_shape s s1" using 1 by (rule round_generate_r1cs_witness_shape) simp
  with 2 have "same_shape s s2" by (rule rounds_generate_r1cs_witness_shape)
  with 3 have "same_shape s s3" by (rule rounds_generate_r1cs_witness_shape)
  with 4 have "same_shape s s4" by (rule rounds_generate_r1cs_witness_shape)
  with 5 have s5: "same_shape s s5" by (rule round_generate_r1cs_witness_shape)
  show ?thesis
  proof (cases "constrainOutputs prm")
    case True
    with 6 have "output_witness_loop m s5 = Inr s'" by simp
    then show ?thesis using s5 by (rule output_witness_loop_shape)
  next
    case False
    with 6 s5 show ?thesis by simp
  qed
qed

lemma instance_generate_r1cs_witness_frame:
  assumes "instance_generate_r1cs_witness prm w g pb = Inr (w', pb')"
  shows "same_shape (master_pb w) (master_pb w')" and "master_ptr w' = master_ptr w"
    and "swapAB_flag w' = swapAB_flag w" and "same_shape pb pb'"
proof -
  from assms obtain mpb1 mpb2 where
    1: "foldM (\<lambda>i mpb.
                     ebind (nth_err (instance_inputs g) i) (\<lambda>v.
                     ebind (pb_val pb v) (\<lambda>x.
                     pb_set_val (1 + i) x mpb)))
              [0 ..< length (instance_inputs g)] (master_pb w) = Inr mpb1"
    and 2: "master_generate_r1cs_witness prm (master g) mpb1 = Inr mpb2"
    and 3: "foldM (\<lambda>i pb'.
                     ebind (pb_val mpb2 (1 + length (instance_inputs g) + i)) (\<lambda>x.
                     pb_set_val (unat (instance_variables_offset g + of_nat i)) x pb'))
              [0 ..< (if num_variables mpb2 < length (instance_inputs g)
                      then 2 ^ 64 + num_variables mpb2 - length (instance_inputs g)
                      else num_variables mpb2 - length (instance_inputs g))] pb = Inr pb'"
    and w': "w' = w\<lparr>master_pb := mpb2\<rparr>"
    unfolding instance_generate_r1cs_witness_def ebind_eq_Inr by blast
  have "same_shape (master_pb w) mpb1"
  proof (rule foldM_preserves[OF _ 1])
    show "same_shape (master_pb w) (master_pb w)" by simp
    fix i and t t' :: "'a protoboard"
    assume run: "ebind (nth_err (instance_inputs g) i) (\<lambda>v.
                     ebind (pb_val pb v) (\<lambda>x. pb_set_val (1 + i) x t)) = Inr t'"
      and sh: "same_shape (master_pb w) t"
    from run obtain x where "pb_set_val (1 + i) x t = Inr t'" by (auto simp: ebind_eq_Inr)
    then show "same_shape (master_pb w) t'" using sh by (rule pb_set_val_shape)
  qed
  moreover have "same_shape mpb1 mpb2" using 2 by (rule master_generate_r1cs_witness_shape)
  ultimately show "same_shape (master_pb w) (master_pb w')"
    by (simp add: same_shape_def w')
  show "master_ptr w' = master_ptr w" "swapAB_flag w' = swapAB_flag w" by (simp_all add: w')
  show "same_shape pb pb'"
  proof (rule foldM_preserves[OF _ 3])
    show "same_shape pb pb" by simp
    fix i and t t' :: "'a protoboard"
    assume run: "ebind (pb_val mpb2 (1 + length (instance_inputs g) + i)) (\<lambda>x.
                     pb_set_val (unat (instance_variables_offset g + of_nat i)) x t) = Inr t'"
      and sh: "same_shape pb t"
    from run obtain x where "pb_set_val (unat (instance_variables_offset g + of_nat i)) x t = Inr t'"
      by (auto simp: ebind_eq_Inr)
    then show "same_shape pb t'" using sh by (rule pb_set_val_shape)
  qed
qed

lemma pb_val_var_value:
  "v \<le> length (pb_values pb) \<Longrightarrow> pb_val pb v = Inr (var_value (pb_values pb) v)"
  by (simp add: pb_val_def var_value_def)

lemma set_val_loop:
  fixes s :: "'f::field protoboard"
  assumes f: "\<And>i s. i < n \<Longrightarrow> length (pb_values s) = L \<Longrightarrow> f i s = pb_set_val (p + 1 + i) (a i) s"
    and len: "p + n \<le> L" "length (pb_values s) = L"
    and k: "k \<le> n"
  shows "foldM f [0 ..< k] s
           = Inr (s\<lparr>pb_values := take p (pb_values s) @ map a [0 ..< k] @ drop (p + k) (pb_values s)\<rparr>)"
  using k
proof (induction k)
  case 0
  then show ?case by simp
next
  case (Suc k)
  let ?vs = "pb_values s"
  let ?s1 = "s\<lparr>pb_values := take p ?vs @ map a [0 ..< k] @ drop (p + k) ?vs\<rparr>"
  have k: "k < n" and kle: "k \<le> n" using Suc.prems by simp_all
  have run: "foldM f [0 ..< k] s = Inr ?s1" by (rule Suc.IH[OF kle])
  have l1: "length (pb_values ?s1) = L" using len k by simp
  have pk: "p + k < length ?vs" using len k by simp
  have d: "drop (p + k) ?vs = ?vs ! (p + k) # drop (p + Suc k) ?vs"
    using pk by (simp add: Cons_nth_drop_Suc)
  have "(take p ?vs @ map a [0 ..< k] @ drop (p + k) ?vs)[p + k := a k]
          = take p ?vs @ (map a [0 ..< k] @ drop (p + k) ?vs)[k := a k]"
    using pk by (simp add: list_update_append)
  also have "(map a [0 ..< k] @ drop (p + k) ?vs)[k := a k]
          = map a [0 ..< k] @ (drop (p + k) ?vs)[0 := a k]"
    by (simp add: list_update_append)
  also have "(drop (p + k) ?vs)[0 := a k] = a k # drop (p + Suc k) ?vs"
    by (simp only: d list_update_code)
  finally have upd: "(take p ?vs @ map a [0 ..< k] @ drop (p + k) ?vs)[p + k := a k]
          = take p ?vs @ map a [0 ..< Suc k] @ drop (p + Suc k) ?vs"
    by simp
  have "f k ?s1 = pb_set_val (p + 1 + k) (a k) ?s1" using k l1 by (rule f)
  also have "\<dots> = Inr (?s1\<lparr>pb_values := (pb_values ?s1)[p + k := a k]\<rparr>)"
    using l1 len k by (simp add: pb_set_val_def)
  also have "\<dots> = Inr (s\<lparr>pb_values := take p ?vs @ map a [0 ..< Suc k] @ drop (p + Suc k) ?vs\<rparr>)"
    using upd by simp
  finally have step: "f k ?s1
      = Inr (s\<lparr>pb_values := take p ?vs @ map a [0 ..< Suc k] @ drop (p + Suc k) ?vs\<rparr>)" .
  show ?case by (simp only: foldM_upt_Suc[OF le0] run ebind_Inr step)
qed


lemma instance_generate_r1cs_witness_ok:
  fixes pb pbx :: "'f::field protoboard" and w :: "'f world"
  assumes con: "Poseidon_gadget_T be prm world_new pb ins = Inr (g, pb1, w1)"
    and len: "length ins = nInputs prm"
    and ins: "\<And>v. v \<in> set ins \<Longrightarrow> v \<le> num_variables pb"
    and small: "num_variables pb1 < 2 ^ 32"
    and mv: "length (pb_values (master_pb w)) = length (pb_values (master_pb w1))"
    and pv: "length (pb_values pbx) = length (pb_values pb1)"
  shows "\<exists>mpb pb'. instance_generate_r1cs_witness prm w g pbx = Inr (w\<lparr>master_pb := mpb\<rparr>, pb') \<and>
           (\<forall>i. i < nInputs prm \<longrightarrow> pb_val mpb (1 + i) = pb_val pbx (ins ! i))"
proof -
  from con obtain m ov where
    gm: "get_master be prm world_new = Inr (m, w1)"
    and le: "length ins \<le> num_variables (master_pb w1)"
    and pb1: "pb1 = grow (num_variables (master_pb w1) - length ins) pb"
    and "nth_err (output_vars m) 0 = Inr ov"
    and g: "master g = m" "instance_inputs g = ins"
      "instance_variables_offset g = of_nat (num_variables pb + 1)"
    by (rule Poseidon_gadget_T_Inr_D)
  define nI where "nI = nInputs prm"
  define pbA :: "'f protoboard" where "pbA = grow (nInputs prm) (master_pb world_new)"
  define insA where "insA = [num_variables (master_pb (world_new :: 'f world)) + 1 ..<
                             num_variables (master_pb (world_new :: 'f world)) + 1 + nInputs prm]"
  have none: "master_ptr (world_new :: 'f world) = None" by (simp add: world_new_def)
  from gm none obtain pb2 pb3 where
    mt: "Master_Poseidon_gadget_T be prm pbA insA = Inr (m, pb2)"
    and gc: "master_generate_r1cs_constraints prm m pb2 = Inr pb3"
    and w1: "w1 = world_new\<lparr>master_pb := pb3, master_ptr := Some m\<rparr>"
    unfolding pbA_def insA_def by (rule get_master_None_D)
  from mt obtain ks where mi: "Master_init prm ks pbA insA = Inr (m, pb2)"
    by (rule Master_T_Inr_D)
  have lenA: "min (param_t prm) (nInputs prm) \<le> length insA" by (simp add: insA_def)
  have "master_generate_r1cs_constraints prm m pb2 = Inr (emit (master_constraints prm m) pb2)"
    using mi lenA by (rule master_generate_r1cs_constraints_ok)
  with gc have pb3: "pb3 = emit (master_constraints prm m) pb2" by simp
  define L where "L = num_variables pb2"
  have Lw1: "length (pb_values (master_pb w1)) = L"
    by (simp add: w1 pb3 emit_def L_def num_variables_def)
  have Lw: "length (pb_values (master_pb w)) = L" using mv Lw1 by simp
  have nIL: "nI \<le> L" using le len Lw1 by (simp add: num_variables_def nI_def)
  have nvA: "num_variables pbA = nI"
    by (simp add: pbA_def world_new_def nI_def)
  have insA_fit: "v \<le> num_variables pbA" if "v \<in> set insA" for v
    using that by (auto simp: nvA insA_def world_new_def nI_def)
  have lx: "length (pb_values pbx) = num_variables pb + (L - nI)"
    using pv Lw1 by (simp add: pb1 grow_def len num_variables_def nI_def)
  have sm: "num_variables pb + (L - nI) < 2 ^ 32"
    using small Lw1 by (simp add: pb1 len num_variables_def nI_def grow_def)
  have lenI: "length ins = nI" using len by (simp add: nI_def)

  define xi where "xi i = var_value (pb_values pbx) (ins ! i)" for i
  have inp: "pb_val pbx (ins ! i) = Inr (xi i)" if "i < nI" for i
  proof -
    have "ins ! i \<in> set ins" using that lenI by simp
    then have "ins ! i \<le> num_variables pb" by (rule ins)
    then have "ins ! i \<le> length (pb_values pbx)" using lx by simp
    then show ?thesis unfolding xi_def by (rule pb_val_var_value)
  qed
  define vs1 where "vs1 = take 0 (pb_values (master_pb w)) @ map xi [0 ..< nI]
                            @ drop (0 + nI) (pb_values (master_pb w))"
  define mpb1 where "mpb1 = (master_pb w)\<lparr>pb_values := vs1\<rparr>"
  have run1: "foldM (\<lambda>i mpb.
                     ebind (nth_err ins i) (\<lambda>v.
                     ebind (pb_val pbx v) (\<lambda>x.
                     pb_set_val (1 + i) x mpb)))
              [0 ..< nI] (master_pb w) = Inr mpb1"
    unfolding mpb1_def vs1_def
  proof (rule set_val_loop[where L = L and n = nI])
    show "0 + nI \<le> L" using nIL by simp
    show "length (pb_values (master_pb w)) = L" by (rule Lw)
    show "nI \<le> nI" by simp
    fix i and s :: "'f protoboard"
    assume i: "i < nI"
    show "ebind (nth_err ins i) (\<lambda>v. ebind (pb_val pbx v) (\<lambda>x. pb_set_val (1 + i) x s))
            = pb_set_val (0 + 1 + i) (xi i) s"
      using i lenI by (simp add: nth_err_def inp)
  qed
  have l1: "length vs1 = L" using nIL Lw by (simp add: vs1_def)
  have lm1: "length (pb_values mpb1) = num_variables pb2" using l1 by (simp add: mpb1_def L_def)
  from master_witness_sound[OF mi lenA insA_fit lm1] obtain vs2 where
    r2: "master_generate_r1cs_witness prm m mpb1 = Inr (mpb1\<lparr>pb_values := vs2\<rparr>)"
    and l2: "length vs2 = length (pb_values mpb1)"
    and t2: "take (num_variables pbA) vs2 = take (num_variables pbA) (pb_values mpb1)"
    by blast
  define mpb2 where "mpb2 = (master_pb w)\<lparr>pb_values := vs2\<rparr>"
  have run2: "master_generate_r1cs_witness prm m mpb1 = Inr mpb2"
    using r2 by (simp add: mpb1_def mpb2_def)
  have lv2: "length vs2 = L" using l2 l1 by (simp add: mpb1_def)
  have nv2: "num_variables mpb2 = L" using lv2 by (simp add: mpb2_def num_variables_def)
  have rng: "(if num_variables mpb2 < nI then 2 ^ 64 + num_variables mpb2 - nI
              else num_variables mpb2 - nI) = L - nI"
    using nIL by (simp add: nv2)

  define yi where "yi i = var_value vs2 (1 + nI + i)" for i
  define pb' where "pb' = pbx\<lparr>pb_values := take (num_variables pb) (pb_values pbx) @ map yi [0 ..< L - nI]
                            @ drop (num_variables pb + (L - nI)) (pb_values pbx)\<rparr>"
  have run3: "foldM (\<lambda>i pb'.
                     ebind (pb_val mpb2 (1 + nI + i)) (\<lambda>x.
                     pb_set_val (unat ((of_nat (num_variables pb + 1) :: 32 word) + of_nat i)) x pb'))
              [0 ..< L - nI] pbx = Inr pb'"
    unfolding pb'_def
  proof (rule set_val_loop[where L = "num_variables pb + (L - nI)" and n = "L - nI"])
    show "num_variables pb + (L - nI) \<le> num_variables pb + (L - nI)" by simp
    show "length (pb_values pbx) = num_variables pb + (L - nI)" by (rule lx)
    show "L - nI \<le> L - nI" by simp
    fix i and s :: "'f protoboard"
    assume i: "i < L - nI"
    have "1 + nI + i \<le> length (pb_values mpb2)" using i lv2 by (simp add: mpb2_def)
    then have a: "pb_val mpb2 (1 + nI + i) = Inr (yi i)"
      unfolding yi_def mpb2_def by (simp add: pb_val_var_value)
    have "(of_nat (num_variables pb + 1) :: 32 word) + of_nat i = of_nat (num_variables pb + 1 + i)"
      by simp
    moreover have "num_variables pb + 1 + i < 2 ^ 32" using i sm by simp
    ultimately have b: "unat ((of_nat (num_variables pb + 1) :: 32 word) + of_nat i)
        = num_variables pb + 1 + i"
      by (simp only: unat_of_nat32)
    show "ebind (pb_val mpb2 (1 + nI + i)) (\<lambda>x.
            pb_set_val (unat ((of_nat (num_variables pb + 1) :: 32 word) + of_nat i)) x s)
          = pb_set_val (num_variables pb + 1 + i) (yi i) s"
      by (simp only: a b ebind_Inr)
  qed
  have run: "instance_generate_r1cs_witness prm w g pbx = Inr (w\<lparr>master_pb := mpb2\<rparr>, pb')"
    unfolding instance_generate_r1cs_witness_def g lenI
    by (simp only: run1 ebind_Inr run2 rng run3)
  have vals: "pb_val mpb2 (1 + i) = pb_val pbx (ins ! i)" if "i < nInputs prm" for i
  proof -
    have i: "i < nI" using that by (simp add: nI_def)
    have "take nI vs2 = take nI vs1" using t2 by (simp add: nvA mpb1_def)
    then have "vs2 ! i = vs1 ! i" using i by (rule nth_agree)
    also have "vs1 ! i = xi i" using i by (simp add: vs1_def nth_append)
    finally have "vs2 ! i = xi i" .
    moreover have "1 + i \<le> length (pb_values mpb2)" using i nIL lv2 by (simp add: mpb2_def)
    ultimately have "pb_val mpb2 (1 + i) = Inr (xi i)"
      by (simp add: pb_val_def mpb2_def)
    then show ?thesis by (simp only: inp[OF i])
  qed
  show ?thesis using run vals by blast
qed

lemma swapAB_twice: "swapAB (swapAB w) = swapAB w"
  by (simp add: swapAB_def)

text \<open>
  Claim C8, as amended.  \<open>generate_r1cs_witness\<close> of a stamped instance changes
  nothing of the statics but the witness values of the master board: its
  constraints, its number of variables, the registered master and the
  once-only flag of \<open>swapAB\<close> stay as they are.  (In the model
  \<open>generate_r1cs_constraints\<close> and \<open>result\<close> of an instance read the statics and
  return none.)  The constructor of an instance leaves initialised statics
  as they are.  \<open>swapAB\<close> is the one operation that changes the constraints of
  the master board, and it does so at most once: it sets its flag, it does
  nothing when the flag is set, and it touches neither the witness values
  nor the registered master.
\<close>

theorem master_board_frame:
  "(instance_generate_r1cs_witness prm w g pb = Inr (w', pb') \<longrightarrow>
      pb_constraints (master_pb w') = pb_constraints (master_pb w) \<and>
      num_variables (master_pb w') = num_variables (master_pb w) \<and>
      master_ptr w' = master_ptr w \<and> swapAB_flag w' = swapAB_flag w) \<and>
   (master_ptr wc \<noteq> None \<and> Poseidon_gadget_T be prm wc pbc ins = Inr (gc, pbc', wc') \<longrightarrow> wc' = wc) \<and>
   swapAB (swapAB ws) = swapAB ws \<and>
   (swapAB_flag ws \<longrightarrow> swapAB ws = ws) \<and>
   swapAB_flag (swapAB ws) \<and>
   pb_values (master_pb (swapAB ws)) = pb_values (master_pb ws) \<and>
   master_ptr (swapAB ws) = master_ptr ws"
proof (intro conjI impI)
  assume run: "instance_generate_r1cs_witness prm w g pb = Inr (w', pb')"
  from instance_generate_r1cs_witness_frame(1)[OF run]
  show "pb_constraints (master_pb w') = pb_constraints (master_pb w)"
    and "num_variables (master_pb w') = num_variables (master_pb w)"
    by (simp_all add: same_shape_def num_variables_def)
  show "master_ptr w' = master_ptr w" "swapAB_flag w' = swapAB_flag w"
    using instance_generate_r1cs_witness_frame(2,3)[OF run] by simp_all
next
  assume a: "master_ptr wc \<noteq> None \<and> Poseidon_gadget_T be prm wc pbc ins = Inr (gc, pbc', wc')"
  then obtain m where gm: "get_master be prm wc = Inr (m, wc')"
    by (elim conjE) (rule Poseidon_gadget_T_Inr_D)
  show "wc' = wc" using get_master_Inr_D(2)[OF gm] a by simp
next
  show "swapAB (swapAB ws) = swapAB ws" by (rule swapAB_twice)
  show "swapAB ws = ws" if "swapAB_flag ws" using that by (simp add: swapAB_def)
  show "swapAB_flag (swapAB ws)" by (simp add: swapAB_def)
  show "pb_values (master_pb (swapAB ws)) = pb_values (master_pb ws)" by (simp add: swapAB_def)
  show "master_ptr (swapAB ws) = master_ptr ws" by (simp add: swapAB_def)
qed

lemma Poseidon128_stamp_ok:
  "\<exists>g pb1 w1. Poseidon_gadget_T example_backend (Poseidon128 1 1 True) world_new
                 \<lparr>pb_values = [5 :: rat], pb_constraints = []\<rparr> [1] = Inr (g, pb1, w1)"
  by (rule Poseidon_gadget_T_ok) (simp_all add: world_new_def)

lemma Poseidon128_stamp_witness:
  assumes con: "Poseidon_gadget_T example_backend (Poseidon128 1 1 True) world_new
                 \<lparr>pb_values = [5 :: rat], pb_constraints = []\<rparr> [1] = Inr (g, pb1, w1)"
    and mv: "length (pb_values (master_pb w)) = length (pb_values (master_pb w1))"
  shows "\<exists>mpb pb2. instance_generate_r1cs_witness (Poseidon128 1 1 True) w g pb1
                      = Inr (w\<lparr>master_pb := mpb\<rparr>, pb2) \<and>
                    pb_val mpb 1 = Inr 5"
    and "pb_val (master_pb w1) 1 = Inr 0"
proof -
  let ?pb0 = "\<lparr>pb_values = [5 :: rat], pb_constraints = []\<rparr>"
  have len: "length [1 :: nat] = nInputs (Poseidon128 1 1 True)" by simp
  have ins: "v \<le> num_variables ?pb0" if "v \<in> set [1 :: nat]" for v
    using that by (simp add: num_variables_def)
  note mb = instance_master_board[OF con]
  from con obtain m where
    pb1: "pb1 = grow (num_variables (master_pb w1) - length [1 :: nat]) ?pb0"
    by (rule Poseidon_gadget_T_Inr_D)
  have nvm: "num_variables (master_pb w1) = 317" using mb(2) by simp
  have nv1: "num_variables pb1 = 317" unfolding pb1 nvm by (simp add: num_variables_def grow_def)
  then have small: "num_variables pb1 < 2 ^ 32" by simp
  from instance_generate_r1cs_witness_ok[OF con len ins small mv refl] obtain mpb pb2 where
    run: "instance_generate_r1cs_witness (Poseidon128 1 1 True) w g pb1
            = Inr (w\<lparr>master_pb := mpb\<rparr>, pb2)"
    and vals: "\<forall>i. i < nInputs (Poseidon128 1 1 True) \<longrightarrow> pb_val mpb (1 + i) = pb_val pb1 ([1] ! i)"
    by blast
  have "pb_values pb1 = [5] @ replicate (num_variables (master_pb w1) - length [1 :: nat]) 0"
    by (simp add: pb1 grow_def)
  then have "pb_values pb1 ! 0 = 5" by (simp only: nth_append_left list.size length_Cons nth_Cons_0)
  moreover have "1 \<le> length (pb_values pb1)" using nv1 by (simp add: num_variables_def)
  ultimately have "pb_val pb1 1 = Inr 5" by (simp add: pb_val_def)
  moreover have "pb_val mpb 1 = pb_val pb1 1" using vals by simp
  ultimately have "pb_val mpb 1 = Inr 5" by simp
  with run show "\<exists>mpb pb2. instance_generate_r1cs_witness (Poseidon128 1 1 True) w g pb1
                      = Inr (w\<lparr>master_pb := mpb\<rparr>, pb2) \<and> pb_val mpb 1 = Inr 5"
    by blast
  have "pb_values (master_pb w1) ! 0 = replicate (num_variables (master_pb w1)) (0 :: rat) ! 0"
    by (subst mb(3)) (rule refl)
  also have "\<dots> = 0" unfolding nvm by simp
  finally have z: "pb_values (master_pb w1) ! 0 = 0" .
  have "pb_val (master_pb w1) 1 = Inr (pb_values (master_pb w1) ! 0)"
    using nvm by (simp add: pb_val_def num_variables_def)
  then show "pb_val (master_pb w1) 1 = Inr 0" by (simp only: z)
qed

theorem master_board_frame_witness:
  "\<exists>g pb1 w1 w2 pb2.
     Poseidon_gadget_T example_backend (Poseidon128 1 1 True) world_new
       \<lparr>pb_values = [5 :: rat], pb_constraints = []\<rparr> [1] = Inr (g, pb1, w1) \<and>
     instance_generate_r1cs_witness (Poseidon128 1 1 True) w1 g pb1 = Inr (w2, pb2) \<and>
     pb_constraints (master_pb w2) = pb_constraints (master_pb w1) \<and>
     num_variables (master_pb w2) = num_variables (master_pb w1) \<and>
     master_ptr w1 \<noteq> None \<and>
     (\<exists>g3 pb3. Poseidon_gadget_T example_backend (Poseidon128 1 1 True) w1 pb2 [1] = Inr (g3, pb3, w1)) \<and>
     swapAB_flag (swapAB w1) \<and> swapAB (swapAB w1) = swapAB w1"
proof -
  let ?prm = "Poseidon128 1 1 True"
  let ?pb0 = "\<lparr>pb_values = [5 :: rat], pb_constraints = []\<rparr>"
  obtain g pb1 w1 where con: "Poseidon_gadget_T example_backend ?prm world_new ?pb0 [1] = Inr (g, pb1, w1)"
    using Poseidon128_stamp_ok by blast
  obtain mpb pb2 where
    run: "instance_generate_r1cs_witness ?prm w1 g pb1 = Inr (w1\<lparr>master_pb := mpb\<rparr>, pb2)"
    using Poseidon128_stamp_witness(1)[OF con refl] by blast
  have ptr: "master_ptr w1 \<noteq> None"
  proof -
    from con obtain m where "get_master example_backend ?prm world_new = Inr (m, w1)"
      by (rule Poseidon_gadget_T_Inr_D)
    then have "master_ptr w1 = Some m" by (rule get_master_Inr_D)
    then show ?thesis by simp
  qed
  obtain g3 pb3 where
    con3: "Poseidon_gadget_T example_backend ?prm w1 pb2 [1] = Inr (g3, pb3, w1)"
    using Poseidon_gadget_T_again[OF con refl] by blast
  note fr = master_board_frame[where prm = ?prm and w = w1 and g = g and pb = pb1
      and w' = "w1\<lparr>master_pb := mpb\<rparr>" and pb' = pb2 and wc = w1 and be = example_backend
      and pbc = pb2 and ins = "[1]" and gc = g3 and pbc' = pb3 and wc' = w1 and ws = "swapAB w1"]
  from fr run have a: "pb_constraints (master_pb (w1\<lparr>master_pb := mpb\<rparr>)) = pb_constraints (master_pb w1)"
    and b: "num_variables (master_pb (w1\<lparr>master_pb := mpb\<rparr>)) = num_variables (master_pb w1)"
    by blast+
  have c: "swapAB_flag (swapAB w1)" by (simp add: swapAB_def)
  have e: "swapAB (swapAB w1) = swapAB w1" using fr c by blast
  have con3': "Poseidon_gadget_T example_backend ?prm w1 pb2 [1] = Inr (g3, pb3, w1)"
    by (rule con3)
  show ?thesis
    using con run a b ptr con3' c e by blast
qed

text \<open>
  The claim as stated says that no operation of an instance modifies the
  master board.  An instance of \<open>Poseidon128<1, 1>\<close> on a board whose input has
  the value \<open>5\<close>: before its \<open>generate_r1cs_witness\<close> the master board reads
  \<open>0\<close> at variable \<open>1\<close>, afterwards it reads \<open>5\<close>.
\<close>

theorem instance_witness_writes_master:
  "ebind (Poseidon_gadget_T example_backend (Poseidon128 1 1 True) world_new
            \<lparr>pb_values = [5 :: rat], pb_constraints = []\<rparr> [1]) (\<lambda>(g, pb1, w1).
     ebind (instance_generate_r1cs_witness (Poseidon128 1 1 True) w1 g pb1) (\<lambda>(w2, pb2).
       Inr (pb_val (master_pb w1) 1, pb_val (master_pb w2) 1)))
   = Inr (Inr 0, Inr 5)"
proof -
  let ?prm = "Poseidon128 1 1 True"
  let ?pb0 = "\<lparr>pb_values = [5 :: rat], pb_constraints = []\<rparr>"
  obtain g pb1 w1 where con: "Poseidon_gadget_T example_backend ?prm world_new ?pb0 [1] = Inr (g, pb1, w1)"
    using Poseidon128_stamp_ok by blast
  obtain mpb pb2 where
    run: "instance_generate_r1cs_witness ?prm w1 g pb1 = Inr (w1\<lparr>master_pb := mpb\<rparr>, pb2)"
    and v: "pb_val mpb 1 = Inr 5"
    using Poseidon128_stamp_witness(1)[OF con refl] by blast
  have z: "pb_val (master_pb w1) 1 = Inr 0"
    by (rule Poseidon128_stamp_witness(2)[OF con refl])
  have sel: "master_pb (w1\<lparr>master_pb := mpb\<rparr>) = mpb" by simp
  show ?thesis by (simp only: con run v z ebind_Inr prod.case sel)
qed

end
